theory Spec2Isabelle
  imports Complex_Main "HOL-Library.Multiset"
begin

section \<open>Data model of \<open>gmes/fdtd.py\<close>\<close>

text \<open>
  The six field components. The engine keeps one attribute per component for each of
  its array families (\<open>self.ex\<close> .. \<open>self.hz\<close>, \<open>self.material_ex\<close> ..
  \<open>self.material_hz\<close>, \<open>self.lock_ex\<close> .. \<open>self.lock_hz\<close>); the model keeps each
  family as one function of the component, so \<open>self.ex\<close> is \<open>fld s E_x\<close>.
\<close>

datatype component = E_x | E_y | E_z | H_x | H_y | H_z

type_synonym idx = "nat \<times> nat \<times> nat"

text \<open>Python floats are modelled as exact rationals.\<close>

type_synonym coord = "rat \<times> rat \<times> rat"

text \<open>
  A three-dimensional numpy array: its shape and its cells. \<open>ndindex\<close> enumerates the
  indices of a shape in row-major order, which is also the order of \<open>.flat\<close>.
\<close>

record 'a ndarray =
  shape :: idx
  cells :: "idx \<Rightarrow> 'a"

definition ndindex :: "idx \<Rightarrow> idx list" where
  "ndindex shp =
     (case shp of (s0, s1, s2) \<Rightarrow>
        concat (map (\<lambda>i. concat (map (\<lambda>j. map (\<lambda>k. (i, j, k)) [0..<s2]) [0..<s1])) [0..<s0]))"

definition flat :: "'a ndarray \<Rightarrow> 'a list" where
  "flat a = map (cells a) (ndindex (shape a))"

definition setitem :: "'a ndarray \<Rightarrow> idx \<Rightarrow> 'a \<Rightarrow> 'a ndarray" where
  "setitem a i v = a\<lparr>cells := (cells a)(i := v)\<rparr>"

text \<open>
  An update rule stored in a material grid: one of the boundary stubs \<open>DummyEx(idx, 1)\<close>
  .. \<open>DummyHz(idx, 1)\<close> of \<open>pointwise_material\<close> (\<open>Dummy c idx 1\<close>), or a rule \<open>'p\<close>
  handed out by a material of the geometry.
\<close>

datatype 'p rule = Dummy component idx nat | Pointwise 'p

text \<open>\<open>TimeStep\<close>: the attributes \<open>n\<close> and \<open>t\<close>.\<close>

record TimeStep =
  ts_n :: rat
  ts_t :: rat

text \<open>
  The discretization service \<open>space\<close>, as far as the engine reads it: the cell widths,
  the time step, and the conversions \<open>space.ex_index_to_space\<close> .. and
  \<open>space.space_to_ex_index\<close> .., one function of the component each.
\<close>

record space =
  space_dx :: rat
  space_dy :: rat
  space_dz :: rat
  space_dt :: rat
  index_to_space :: "component \<Rightarrow> idx \<Rightarrow> coord"
  space_to_index :: "component \<Rightarrow> coord option \<Rightarrow> idx"

text \<open>
  The objects the caller and the engine can both refer to live in a store: list objects,
  geometric objects and source objects, each at an address; \<open>alloc\<close> is the first
  address not in use. A geometric object \<open>'g\<close> and a source \<open>'s\<close> stand for the
  object with everything it owns.
\<close>

type_synonym addr = nat

record ('g, 's) store =
  alloc :: addr
  list_at :: "addr \<Rightarrow> addr list"
  geom_at :: "addr \<Rightarrow> 'g"
  src_at :: "addr \<Rightarrow> 's"

text \<open>The methods an engine runs in a thread of its own or calls directly.\<close>

datatype task =
  Init_material component | Init_source component | Update component | Write component

datatype exn = ClassificationError | AttributeError | IndexError

text \<open>
  What an execution leaves behind for an observer, in order: a method body entered and
  left (or left by an exception), a rule's \<open>update\<close> invoked with the named arrays and
  the given numbers, a call of the external \<open>write_hdf5\<close>, and the time state as an
  assignment to \<open>time_step.t\<close> leaves it.
\<close>

datatype 'p event =
    Begin task
  | End task
  | Died task exn
  | Invoke "'p rule" component component component rat rat rat
  | Write_hdf5 "rat ndarray" string idx idx
  | Time_state TimeStep

text \<open>
  The attributes of an engine, and the store its references point into. \<open>geom_list\<close>
  and \<open>src_list\<close> refer to list objects; \<open>geom_tree\<close> is the \<open>GeomBoxTree\<close> built
  from the objects of \<open>geom_list\<close>, kept as the references to them.
\<close>

record ('g, 'p, 's) fdtd =
  store :: "('g, 's) store"
  lock :: "component \<Rightarrow> bool"
  space :: space
  geom_list :: addr
  geom_tree :: "addr list"
  src_list :: addr
  dx :: rat
  dy :: rat
  dz :: rat
  dt :: rat
  time_step :: TimeStep
  fld :: "component \<Rightarrow> rat ndarray"
  material :: "component \<Rightarrow> 'p rule option ndarray"
  events :: "'p event list"

text \<open>
  The collaborators that are not part of \<open>fdtd.py\<close>, as parameters:
  \<^item> \<open>geom_obj.init(space)\<close> and \<open>so.init(geom_tree, space)\<close>, which rewrite their object;
  \<open>space.get_ex_storage()\<close> .. and \<open>space.get_material_ex_storage()\<close> ..;
  \<^item> \<open>geom_tree.object_of_point(co)\<close>, on the objects of the tree as they are when it is
    asked: the covering object, or none (the call, or the read of \<open>.material\<close> that
    follows it, raises);
  \<^item> the material of a geometric object handing out a rule
    (\<open>geom_obj.material.get_pointwise_material_ex(idx, co)\<close> ..);
  \<^item> a rule's \<open>update(own, partner1, partner2, dt, d1, d2)\<close>, which rewrites the array
    passed first;
  \<^item> a source's overlay \<open>so.set_pointwise_source_ex(material_ex, space)\<close> .., which
    rewrites the material grid it is given.
\<close>

record ('g, 'p, 's) externals =
  geom_init :: "'g \<Rightarrow> space \<Rightarrow> 'g"
  src_init :: "'s \<Rightarrow> 'g list \<Rightarrow> space \<Rightarrow> 's"
  get_storage :: "space \<Rightarrow> component \<Rightarrow> rat ndarray"
  get_material_storage :: "space \<Rightarrow> component \<Rightarrow> 'p rule option ndarray"
  object_of_point :: "'g list \<Rightarrow> coord \<Rightarrow> 'g option"
  get_pointwise_material :: "'g \<Rightarrow> component \<Rightarrow> idx \<Rightarrow> coord \<Rightarrow> 'p"
  update :: "'p rule \<Rightarrow> rat ndarray \<Rightarrow> rat ndarray \<Rightarrow> rat ndarray \<Rightarrow> rat \<Rightarrow> rat \<Rightarrow> rat \<Rightarrow> rat ndarray"
  set_pointwise_source ::
    "'s \<Rightarrow> component \<Rightarrow> 'p rule option ndarray \<Rightarrow> space \<Rightarrow> 'p rule option ndarray"

section \<open>Control: exceptions, locks and threads\<close>

text \<open>
  A method body returns, or raises with the mutations it has made so far left in place,
  or never returns: \<open>Lock.acquire()\<close> on a lock that is held blocks.
\<close>

datatype 'a outcome = Returned 'a | Raised exn 'a | Blocked

fun seq :: "'a outcome \<Rightarrow> ('a \<Rightarrow> 'a outcome) \<Rightarrow> 'a outcome" where
  "seq (Returned s) f = f s"
| "seq (Raised e s) f = Raised e s"
| "seq Blocked f = Blocked"

definition emit :: "'p event \<Rightarrow> ('g, 'p, 's) fdtd \<Rightarrow> ('g, 'p, 's) fdtd" where
  "emit ev s = s\<lparr>events := events s @ [ev]\<rparr>"

definition acquire :: "component \<Rightarrow> ('g, 'p, 's) fdtd \<Rightarrow> ('g, 'p, 's) fdtd outcome" where
  "acquire c s = (if lock s c then Blocked else Returned (s\<lparr>lock := (lock s)(c := True)\<rparr>))"

definition release :: "component \<Rightarrow> ('g, 'p, 's) fdtd \<Rightarrow> ('g, 'p, 's) fdtd outcome" where
  "release c s = Returned (s\<lparr>lock := (lock s)(c := False)\<rparr>)"

section \<open>Material grid construction\<close>

text \<open>
  The boundary tests of \<open>init_material_ex\<close> .. \<open>init_material_hz\<close>, on the shape of the
  component's field array.
\<close>

fun is_boundary :: "component \<Rightarrow> idx \<Rightarrow> idx \<Rightarrow> bool" where
  "is_boundary E_x (s0, s1, s2) (i, j, k) = (int j = int s1 - 1 \<or> int k = int s2 - 1)"
| "is_boundary E_y (s0, s1, s2) (i, j, k) = (int k = int s2 - 1 \<or> int i = int s0 - 1)"
| "is_boundary E_z (s0, s1, s2) (i, j, k) = (int i = int s0 - 1 \<or> int j = int s1 - 1)"
| "is_boundary H_x (s0, s1, s2) (i, j, k) = (j = 0 \<or> k = 0)"
| "is_boundary H_y (s0, s1, s2) (i, j, k) = (k = 0 \<or> i = 0)"
| "is_boundary H_z (s0, s1, s2) (i, j, k) = (i = 0 \<or> j = 0)"

definition set_material ::
  "component \<Rightarrow> idx \<Rightarrow> 'p rule \<Rightarrow> ('g, 'p, 's) fdtd \<Rightarrow> ('g, 'p, 's) fdtd" where
  "set_material c i r s = s\<lparr>material := (material s)(c := setitem (material s c) i (Some r))\<rparr>"

text \<open>
  The loop body shared by the six \<open>init_material_*\<close> methods, over the indices still to
  visit. \<open>object_of_point\<close> finding no covering object raises inside the loop, and so
  does the assignment \<open>self.material_c[idx] = ...\<close> at an index outside the shape of
  the material array.
\<close>

fun in_bounds :: "idx \<Rightarrow> idx \<Rightarrow> bool" where
  "in_bounds (s0, s1, s2) (i, j, k) = (i < s0 \<and> j < s1 \<and> k < s2)"

fun init_material_cells ::
  "('g, 'p, 's) externals \<Rightarrow> component \<Rightarrow> idx \<Rightarrow> idx list \<Rightarrow> ('g, 'p, 's) fdtd
     \<Rightarrow> ('g, 'p, 's) fdtd outcome" where
  "init_material_cells X c shp [] s = Returned s"
| "init_material_cells X c shp (i # rest) s =
     (if is_boundary c shp i
      then
        (if in_bounds (shape (material s c)) i
         then init_material_cells X c shp rest (set_material c i (Dummy c i 1) s)
         else Raised IndexError s)
      else
        (let co = index_to_space (space s) c i in
         case object_of_point X (map (geom_at (store s)) (geom_tree s)) co of
           None \<Rightarrow> Raised ClassificationError s
         | Some geom_obj \<Rightarrow>
             (if in_bounds (shape (material s c)) i
              then init_material_cells X c shp rest
                     (set_material c i (Pointwise (get_pointwise_material X geom_obj c i co)) s)
              else Raised IndexError s)))"

definition init_material_component ::
  "('g, 'p, 's) externals \<Rightarrow> component \<Rightarrow> ('g, 'p, 's) fdtd \<Rightarrow> ('g, 'p, 's) fdtd outcome" where
  "init_material_component X c s =
     seq (acquire c s) (\<lambda>s.
       seq (init_material_cells X c (shape (fld s c)) (ndindex (shape (fld s c))) s)
         (release c))"

definition init_material_ex where "init_material_ex X = init_material_component X E_x"
definition init_material_ey where "init_material_ey X = init_material_component X E_y"
definition init_material_ez where "init_material_ez X = init_material_component X E_z"
definition init_material_hx where "init_material_hx X = init_material_component X H_x"
definition init_material_hy where "init_material_hy X = init_material_component X H_y"
definition init_material_hz where "init_material_hz X = init_material_component X H_z"

section \<open>Source injection\<close>

fun init_source_loop ::
  "('g, 'p, 's) externals \<Rightarrow> component \<Rightarrow> addr list \<Rightarrow> ('g, 'p, 's) fdtd \<Rightarrow> ('g, 'p, 's) fdtd" where
  "init_source_loop X c [] s = s"
| "init_source_loop X c (so # rest) s =
     init_source_loop X c rest
       (s\<lparr>material :=
            (material s)(c := set_pointwise_source X (src_at (store s) so) c (material s c) (space s))\<rparr>)"

definition init_source_component ::
  "('g, 'p, 's) externals \<Rightarrow> component \<Rightarrow> ('g, 'p, 's) fdtd \<Rightarrow> ('g, 'p, 's) fdtd outcome" where
  "init_source_component X c s =
     Returned (init_source_loop X c (list_at (store s) (src_list s)) s)"

definition init_source_ex where "init_source_ex X = init_source_component X E_x"
definition init_source_ey where "init_source_ey X = init_source_component X E_y"
definition init_source_ez where "init_source_ez X = init_source_component X E_z"
definition init_source_hx where "init_source_hx X = init_source_component X H_x"
definition init_source_hy where "init_source_hy X = init_source_component X H_y"
definition init_source_hz where "init_source_hz X = init_source_component X H_z"

section \<open>Field updates\<close>

text \<open>
  \<open>mo.update(self.own, self.p1, self.p2, dt, d1, d2)\<close>: the rule rewrites the array
  passed first.
\<close>

definition invoke ::
  "('g, 'p, 's) externals \<Rightarrow> 'p rule \<Rightarrow> component \<Rightarrow> component \<Rightarrow> component \<Rightarrow> rat \<Rightarrow> rat \<Rightarrow> rat
     \<Rightarrow> ('g, 'p, 's) fdtd \<Rightarrow> ('g, 'p, 's) fdtd" where
  "invoke X mo own p1 p2 h d1 d2 s =
     s\<lparr>fld := (fld s)(own := update X mo (fld s own) (fld s p1) (fld s p2) h d1 d2),
       events := events s @ [Invoke mo own p1 p2 h d1 d2]\<rparr>"

text \<open>
  \<open>for mo in self.material_c.flat: body\<close>. A cell that holds no rule has no \<open>update\<close>
  attribute.
\<close>

fun for_each_rule ::
  "('p rule \<Rightarrow> ('g, 'p, 's) fdtd \<Rightarrow> ('g, 'p, 's) fdtd) \<Rightarrow> 'p rule option list \<Rightarrow> ('g, 'p, 's) fdtd
     \<Rightarrow> ('g, 'p, 's) fdtd outcome" where
  "for_each_rule body [] s = Returned s"
| "for_each_rule body (None # rest) s = Raised AttributeError s"
| "for_each_rule body (Some mo # rest) s = for_each_rule body rest (body mo s)"

definition update_pass ::
  "component \<Rightarrow> ('p rule \<Rightarrow> ('g, 'p, 's) fdtd \<Rightarrow> ('g, 'p, 's) fdtd) \<Rightarrow> ('g, 'p, 's) fdtd
     \<Rightarrow> ('g, 'p, 's) fdtd outcome" where
  "update_pass c body s =
     seq (acquire c s) (\<lambda>s. seq (for_each_rule body (flat (material s c)) s) (release c))"

definition update_ex where
  "update_ex X = update_pass E_x (\<lambda>mo s. invoke X mo E_x H_z H_y (dt s) (dy s) (dz s) s)"
definition update_ey where
  "update_ey X = update_pass E_y (\<lambda>mo s. invoke X mo E_y H_x H_z (dt s) (dz s) (dx s) s)"
definition update_ez where
  "update_ez X = update_pass E_z (\<lambda>mo s. invoke X mo E_z H_y H_x (dt s) (dx s) (dy s) s)"
definition update_hx where
  "update_hx X = update_pass H_x (\<lambda>mo s. invoke X mo H_x E_z E_y (dt s) (dy s) (dz s) s)"
definition update_hy where
  "update_hy X = update_pass H_y (\<lambda>mo s. invoke X mo H_y E_x E_z (dt s) (dz s) (dx s) s)"
definition update_hz where
  "update_hz X = update_pass H_z (\<lambda>mo s. invoke X mo H_z E_y E_x (dt s) (dx s) (dy s) s)"

section \<open>File export\<close>

definition write_ex ::
  "coord option \<Rightarrow> coord option \<Rightarrow> string option \<Rightarrow> string option \<Rightarrow> ('g, 'p, 's) fdtd
     \<Rightarrow> ('g, 'p, 's) fdtd outcome" where
  "write_ex low high prefix postfix s =
     (let low_idx = (if low = None then (0, 0, 0) else space_to_index (space s) E_x low);
          high_idx = (if low = None then shape (fld s E_x) else space_to_index (space s) E_x high);
          high_idx = (case high_idx of (h0, h1, h2) \<Rightarrow> (h0 + 1, h1 + 1, h2 + 1));
          name = '''';
          name = (case prefix of None \<Rightarrow> name | Some p \<Rightarrow> p @ name);
          name = (case postfix of None \<Rightarrow> name | Some p \<Rightarrow> name @ p)
      in Returned (emit (Write_hdf5 (fld s E_x) name low_idx high_idx) s))"

definition write_ey :: "('g, 'p, 's) fdtd \<Rightarrow> ('g, 'p, 's) fdtd outcome" where
  "write_ey s = Returned s"
definition write_ez :: "('g, 'p, 's) fdtd \<Rightarrow> ('g, 'p, 's) fdtd outcome" where
  "write_ez s = Returned s"
definition write_hx :: "('g, 'p, 's) fdtd \<Rightarrow> ('g, 'p, 's) fdtd outcome" where
  "write_hx s = Returned s"
definition write_hy :: "('g, 'p, 's) fdtd \<Rightarrow> ('g, 'p, 's) fdtd outcome" where
  "write_hy s = Returned s"
definition write_hz :: "('g, 'p, 's) fdtd \<Rightarrow> ('g, 'p, 's) fdtd outcome" where
  "write_hz s = Returned s"

section \<open>Threads\<close>

text \<open>The bound method a thread is given as its target, called with no arguments.\<close>

fun target ::
  "('g, 'p, 's) externals \<Rightarrow> task \<Rightarrow> ('g, 'p, 's) fdtd \<Rightarrow> ('g, 'p, 's) fdtd outcome" where
  "target X (Init_material E_x) = init_material_ex X"
| "target X (Init_material E_y) = init_material_ey X"
| "target X (Init_material E_z) = init_material_ez X"
| "target X (Init_material H_x) = init_material_hx X"
| "target X (Init_material H_y) = init_material_hy X"
| "target X (Init_material H_z) = init_material_hz X"
| "target X (Init_source E_x) = init_source_ex X"
| "target X (Init_source E_y) = init_source_ey X"
| "target X (Init_source E_z) = init_source_ez X"
| "target X (Init_source H_x) = init_source_hx X"
| "target X (Init_source H_y) = init_source_hy X"
| "target X (Init_source H_z) = init_source_hz X"
| "target X (Update E_x) = update_ex X"
| "target X (Update E_y) = update_ey X"
| "target X (Update E_z) = update_ez X"
| "target X (Update H_x) = update_hx X"
| "target X (Update H_y) = update_hy X"
| "target X (Update H_z) = update_hz X"
| "target X (Write E_x) = write_ex None None None None"
| "target X (Write E_y) = write_ey"
| "target X (Write E_z) = write_ez"
| "target X (Write H_x) = write_hx"
| "target X (Write H_y) = write_hy"
| "target X (Write H_z) = write_hz"

text \<open>
  A method called in the calling thread: its exception is the caller's.
\<close>

definition call ::
  "('g, 'p, 's) externals \<Rightarrow> task \<Rightarrow> ('g, 'p, 's) fdtd \<Rightarrow> ('g, 'p, 's) fdtd outcome" where
  "call X m s =
     (case target X m (emit (Begin m) s) of
        Returned s' \<Rightarrow> Returned (emit (End m) s')
      | Raised e s' \<Rightarrow> Raised e (emit (Died m e) s')
      | Blocked \<Rightarrow> Blocked)"

text \<open>
  A method run as the target of a \<open>Thread\<close>, from its start to the end of the thread.
  An exception of the target ends the thread and goes no further: \<open>threading\<close> prints
  the traceback and the thread is over, so \<open>join\<close> returns as after a normal end. A
  thread that blocks never ends (\<open>None\<close>).
\<close>

definition run_thread ::
  "('g, 'p, 's) externals \<Rightarrow> task \<Rightarrow> ('g, 'p, 's) fdtd \<Rightarrow> ('g, 'p, 's) fdtd option" where
  "run_thread X m s =
     (case call X m s of
        Returned s' \<Rightarrow> Some s'
      | Raised e s' \<Rightarrow> Some s'
      | Blocked \<Rightarrow> None)"

text \<open>
  The order in which the started threads run is the scheduler's. A schedule is a list of
  choices: each picks one of the threads not yet run (modulo their number); when the
  choices are used up the remaining threads run in the order they were started. Every
  order of the threads is the order of some schedule.
\<close>

fun pick_order :: "nat list \<Rightarrow> 'a list \<Rightarrow> 'a list" where
  "pick_order sched [] = []"
| "pick_order [] ths = ths"
| "pick_order (c # sched) ths =
     (let i = c mod length ths in ths ! i # pick_order sched (take i ths @ drop (Suc i) ths))"

fun run_threads ::
  "('g, 'p, 's) externals \<Rightarrow> task list \<Rightarrow> ('g, 'p, 's) fdtd \<Rightarrow> ('g, 'p, 's) fdtd option" where
  "run_threads X [] s = Some s"
| "run_threads X (m # ms) s =
     (case run_thread X m s of None \<Rightarrow> None | Some s' \<Rightarrow> run_threads X ms s')"

text \<open>
  \<open>for thread in threads: thread.start()\<close> followed by
  \<open>for thread in threads: thread.join()\<close>: returns when every thread has ended, and
  never if one of them never ends.
\<close>

definition fork_join ::
  "('g, 'p, 's) externals \<Rightarrow> nat list \<Rightarrow> task list \<Rightarrow> ('g, 'p, 's) fdtd
     \<Rightarrow> ('g, 'p, 's) fdtd outcome" where
  "fork_join X sched threads s =
     (case run_threads X (pick_order sched threads) s of
        None \<Rightarrow> Blocked
      | Some s' \<Rightarrow> Returned s')"

section \<open>Stepping\<close>

text \<open>
  The three statements on the time state that the \<open>step\<close> methods use; \<open>tick\<close> shows
  the observer the time state a phase ends with.
\<close>

definition tick :: "('g, 'p, 's) fdtd \<Rightarrow> ('g, 'p, 's) fdtd" where
  "tick s = emit (Time_state (time_step s)) s"

definition n_add :: "rat \<Rightarrow> ('g, 'p, 's) fdtd \<Rightarrow> ('g, 'p, 's) fdtd" where
  "n_add h s = s\<lparr>time_step := (time_step s)\<lparr>ts_n := ts_n (time_step s) + h\<rparr>\<rparr>"

definition t_set :: "('g, 'p, 's) fdtd \<Rightarrow> ('g, 'p, 's) fdtd" where
  "t_set s = s\<lparr>time_step := (time_step s)\<lparr>ts_t := ts_n (time_step s) * dt s\<rparr>\<rparr>"

definition t_add :: "('g, 'p, 's) fdtd \<Rightarrow> ('g, 'p, 's) fdtd" where
  "t_add s = s\<lparr>time_step := (time_step s)\<lparr>ts_t := ts_t (time_step s) + dt s\<rparr>\<rparr>"

text \<open>
  \<open>FDTD.step\<close>. The two schedules are those of its two groups of threads.
\<close>

definition FDTD_step ::
  "('g, 'p, 's) externals \<Rightarrow> nat list \<Rightarrow> nat list \<Rightarrow> ('g, 'p, 's) fdtd \<Rightarrow> ('g, 'p, 's) fdtd outcome" where
  "FDTD_step X sched1 sched2 s =
     seq (fork_join X sched1
            [Update E_x, Update E_y, Update E_z, Write H_x, Write H_y, Write H_z] s) (\<lambda>s.
     seq (Returned (tick (t_set (n_add (1/2) s)))) (\<lambda>s.
     seq (fork_join X sched2
            [Update H_x, Update H_y, Update H_z, Write E_x, Write E_y, Write E_z] s) (\<lambda>s.
     Returned (tick (t_set (n_add (1/2) s))))))"

definition TExFDTD_step ::
  "('g, 'p, 's) externals \<Rightarrow> nat list \<Rightarrow> ('g, 'p, 's) fdtd \<Rightarrow> ('g, 'p, 's) fdtd outcome" where
  "TExFDTD_step X sched s =
     seq (fork_join X sched [Update E_y, Update E_z] s) (\<lambda>s.
     seq (Returned (tick (t_set (n_add (1/2) s)))) (\<lambda>s.
     seq (call X (Update H_x) s) (\<lambda>s.
     Returned (tick (t_set (n_add (1/2) s))))))"

definition TEyFDTD_step ::
  "('g, 'p, 's) externals \<Rightarrow> nat list \<Rightarrow> ('g, 'p, 's) fdtd \<Rightarrow> ('g, 'p, 's) fdtd outcome" where
  "TEyFDTD_step X sched s =
     seq (fork_join X sched [Update E_z, Update E_x] s) (\<lambda>s.
     seq (Returned (tick (t_set (n_add (1/2) s)))) (\<lambda>s.
     seq (call X (Update H_y) s) (\<lambda>s.
     Returned (tick (t_set (n_add (1/2) s))))))"

definition TEzFDTD_step ::
  "('g, 'p, 's) externals \<Rightarrow> nat list \<Rightarrow> ('g, 'p, 's) fdtd \<Rightarrow> ('g, 'p, 's) fdtd outcome" where
  "TEzFDTD_step X sched s =
     seq (fork_join X sched [Update E_x, Update E_y] s) (\<lambda>s.
     seq (Returned (tick (t_set (n_add (1/2) s)))) (\<lambda>s.
     seq (call X (Update H_z) s) (\<lambda>s.
     Returned (tick (t_add (n_add (1/2) s))))))"

definition TMxFDTD_step ::
  "('g, 'p, 's) externals \<Rightarrow> nat list \<Rightarrow> ('g, 'p, 's) fdtd \<Rightarrow> ('g, 'p, 's) fdtd outcome" where
  "TMxFDTD_step X sched s =
     seq (call X (Update E_x) s) (\<lambda>s.
     seq (Returned (tick (t_set (n_add (1/2) s)))) (\<lambda>s.
     seq (fork_join X sched [Update H_y, Update H_z] s) (\<lambda>s.
     Returned (tick (t_set (n_add (1/2) s))))))"

definition TMyFDTD_step ::
  "('g, 'p, 's) externals \<Rightarrow> nat list \<Rightarrow> ('g, 'p, 's) fdtd \<Rightarrow> ('g, 'p, 's) fdtd outcome" where
  "TMyFDTD_step X sched s =
     seq (call X (Update E_y) s) (\<lambda>s.
     seq (Returned (tick (t_set (n_add (1/2) s)))) (\<lambda>s.
     seq (fork_join X sched [Update H_z, Update H_x] s) (\<lambda>s.
     Returned (tick (t_set (n_add (1/2) s))))))"

definition TMzFDTD_step ::
  "('g, 'p, 's) externals \<Rightarrow> nat list \<Rightarrow> ('g, 'p, 's) fdtd \<Rightarrow> ('g, 'p, 's) fdtd outcome" where
  "TMzFDTD_step X sched s =
     seq (call X (Update E_z) s) (\<lambda>s.
     seq (Returned (tick (t_set (n_add (1/2) s)))) (\<lambda>s.
     seq (fork_join X sched [Update H_x, Update H_y] s) (\<lambda>s.
     Returned (tick (t_set (n_add (1/2) s))))))"

definition TEMxFDTD_step ::
  "('g, 'p, 's) externals \<Rightarrow> ('g, 'p, 's) fdtd \<Rightarrow> ('g, 'p, 's) fdtd outcome" where
  "TEMxFDTD_step X s =
     seq (call X (Update E_y) s) (\<lambda>s.
     seq (Returned (tick (t_set (n_add 5 s)))) (\<lambda>s.
     seq (call X (Update H_z) s) (\<lambda>s.
     Returned (tick (t_set (n_add 5 s))))))"

definition TEMyFDTD_step ::
  "('g, 'p, 's) externals \<Rightarrow> ('g, 'p, 's) fdtd \<Rightarrow> ('g, 'p, 's) fdtd outcome" where
  "TEMyFDTD_step X s =
     seq (call X (Update E_z) s) (\<lambda>s.
     seq (Returned (tick (t_set (n_add 5 s)))) (\<lambda>s.
     seq (call X (Update H_x) s) (\<lambda>s.
     Returned (tick (t_set (n_add 5 s))))))"

definition TEMzFDTD_step ::
  "('g, 'p, 's) externals \<Rightarrow> ('g, 'p, 's) fdtd \<Rightarrow> ('g, 'p, 's) fdtd outcome" where
  "TEMzFDTD_step X s =
     seq (call X (Update E_x) s) (\<lambda>s.
     seq (Returned (tick (t_set (n_add 5 s)))) (\<lambda>s.
     seq (call X (Update H_y) s) (\<lambda>s.
     Returned (tick (t_set (n_add 5 s))))))"

text \<open>
  The engine classes, and \<open>step\<close> dispatched on the class of the engine. The first
  schedule is that of the threads of the electric phase, the second that of the threads
  of the magnetic phase; a phase that starts no thread has no use for its schedule.
\<close>

datatype engine =
    FDTD | TExFDTD | TEyFDTD | TEzFDTD | TMxFDTD | TMyFDTD | TMzFDTD
  | TEMxFDTD | TEMyFDTD | TEMzFDTD

fun step ::
  "engine \<Rightarrow> ('g, 'p, 's) externals \<Rightarrow> nat list \<Rightarrow> nat list \<Rightarrow> ('g, 'p, 's) fdtd
     \<Rightarrow> ('g, 'p, 's) fdtd outcome" where
  "step FDTD X sched1 sched2 = FDTD_step X sched1 sched2"
| "step TExFDTD X sched1 sched2 = TExFDTD_step X sched1"
| "step TEyFDTD X sched1 sched2 = TEyFDTD_step X sched1"
| "step TEzFDTD X sched1 sched2 = TEzFDTD_step X sched1"
| "step TMxFDTD X sched1 sched2 = TMxFDTD_step X sched2"
| "step TMyFDTD X sched1 sched2 = TMyFDTD_step X sched2"
| "step TMzFDTD X sched1 sched2 = TMzFDTD_step X sched2"
| "step TEMxFDTD X sched1 sched2 = TEMxFDTD_step X"
| "step TEMyFDTD X sched1 sched2 = TEMyFDTD_step X"
| "step TEMzFDTD X sched1 sched2 = TEMzFDTD_step X"

section \<open>Construction\<close>

text \<open>
  \<open>init_material\<close> and \<open>init_source\<close> of \<open>FDTD\<close> and their overrides: the threads each
  class starts, in the order it starts them.
\<close>

fun init_material_threads :: "engine \<Rightarrow> task list" where
  "init_material_threads FDTD =
     [Init_material E_x, Init_material E_y, Init_material E_z,
      Init_material H_x, Init_material H_y, Init_material H_z]"
| "init_material_threads TExFDTD = [Init_material E_y, Init_material E_z, Init_material H_x]"
| "init_material_threads TEyFDTD = [Init_material E_z, Init_material E_x, Init_material H_y]"
| "init_material_threads TEzFDTD = [Init_material E_x, Init_material E_y, Init_material H_z]"
| "init_material_threads TMxFDTD = [Init_material H_y, Init_material H_z, Init_material E_x]"
| "init_material_threads TMyFDTD = [Init_material H_z, Init_material H_x, Init_material E_y]"
| "init_material_threads TMzFDTD = [Init_material H_x, Init_material H_y, Init_material E_z]"
| "init_material_threads TEMxFDTD = [Init_material E_y, Init_material H_z]"
| "init_material_threads TEMyFDTD = [Init_material E_z, Init_material H_x]"
| "init_material_threads TEMzFDTD = [Init_material E_x, Init_material H_y]"

definition init_material ::
  "engine \<Rightarrow> ('g, 'p, 's) externals \<Rightarrow> nat list \<Rightarrow> ('g, 'p, 's) fdtd \<Rightarrow> ('g, 'p, 's) fdtd outcome" where
  "init_material cls X sched s = fork_join X sched (init_material_threads cls) s"

fun init_source_threads :: "engine \<Rightarrow> task list" where
  "init_source_threads FDTD =
     [Init_source E_x, Init_source E_y, Init_source E_z,
      Init_source H_x, Init_source H_y, Init_source H_z]"
| "init_source_threads TExFDTD = [Init_source E_y, Init_source E_z, Init_source H_x]"
| "init_source_threads TEyFDTD = [Init_source E_z, Init_source E_x, Init_source H_y]"
| "init_source_threads TEzFDTD = [Init_source E_x, Init_source E_y, Init_source H_z]"
| "init_source_threads TMxFDTD = [Init_source H_y, Init_source H_z, Init_source E_x]"
| "init_source_threads TMyFDTD = [Init_source H_z, Init_source H_x, Init_source E_y]"
| "init_source_threads TMzFDTD = [Init_source H_x, Init_source H_y, Init_source E_z]"
| "init_source_threads TEMxFDTD = [Init_source E_y, Init_source H_z]"
| "init_source_threads TEMyFDTD = [Init_source E_z, Init_source H_x]"
| "init_source_threads TEMzFDTD = [Init_source E_x, Init_source H_y]"

definition init_source ::
  "engine \<Rightarrow> ('g, 'p, 's) externals \<Rightarrow> nat list \<Rightarrow> ('g, 'p, 's) fdtd \<Rightarrow> ('g, 'p, 's) fdtd outcome" where
  "init_source cls X sched s = fork_join X sched (init_source_threads cls) s"

text \<open>
  \<open>copy.deepcopy\<close> of a list object of the store. Every object the list refers to is
  copied to a fresh address, once: the memo sends an original that was met before to
  the copy made then. The new list object refers to the copies.
\<close>

fun deepcopy_elems ::
  "(addr \<Rightarrow> 'o) \<Rightarrow> addr \<Rightarrow> (addr \<times> addr) list \<Rightarrow> addr list \<Rightarrow> (addr \<Rightarrow> 'o) \<times> addr \<times> addr list" where
  "deepcopy_elems obj n memo [] = (obj, n, [])"
| "deepcopy_elems obj n memo (a # rest) =
     (case map_of memo a of
        Some b \<Rightarrow>
          (case deepcopy_elems obj n memo rest of (obj', n', bs) \<Rightarrow> (obj', n', b # bs))
      | None \<Rightarrow>
          (case deepcopy_elems (obj(n := obj a)) (Suc n) ((a, n) # memo) rest of
             (obj', n', bs) \<Rightarrow> (obj', n', n # bs)))"

definition deepcopy_geom_list :: "('g, 's) store \<Rightarrow> addr \<Rightarrow> ('g, 's) store \<times> addr" where
  "deepcopy_geom_list h a =
     (case deepcopy_elems (geom_at h) (alloc h) [] (list_at h a) of
        (obj', n', bs) \<Rightarrow>
          (h\<lparr>alloc := Suc n', geom_at := obj', list_at := (list_at h)(n' := bs)\<rparr>, n'))"

definition deepcopy_src_list :: "('g, 's) store \<Rightarrow> addr \<Rightarrow> ('g, 's) store \<times> addr" where
  "deepcopy_src_list h a =
     (case deepcopy_elems (src_at h) (alloc h) [] (list_at h a) of
        (obj', n', bs) \<Rightarrow>
          (h\<lparr>alloc := Suc n', src_at := obj', list_at := (list_at h)(n' := bs)\<rparr>, n'))"

text \<open>
  \<open>for geom_obj in self.geom_list: geom_obj.init(self.space)\<close> and
  \<open>for so in self.src_list: so.init(self.geom_tree, self.space)\<close>, on the store.
\<close>

fun init_geom_objs ::
  "('g, 'p, 's) externals \<Rightarrow> space \<Rightarrow> addr list \<Rightarrow> ('g, 's) store \<Rightarrow> ('g, 's) store" where
  "init_geom_objs X sp [] h = h"
| "init_geom_objs X sp (a # rest) h =
     init_geom_objs X sp rest (h\<lparr>geom_at := (geom_at h)(a := geom_init X (geom_at h a) sp)\<rparr>)"

fun init_src_objs ::
  "('g, 'p, 's) externals \<Rightarrow> addr list \<Rightarrow> space \<Rightarrow> addr list \<Rightarrow> ('g, 's) store \<Rightarrow> ('g, 's) store" where
  "init_src_objs X tree sp [] h = h"
| "init_src_objs X tree sp (a # rest) h =
     init_src_objs X tree sp rest
       (h\<lparr>src_at := (src_at h)(a := src_init X (src_at h a) (map (geom_at h) tree) sp)\<rparr>)"

text \<open>
  \<open>FDTD.__init__(space, geom_list, src_list)\<close>, which every class of the family
  inherits; \<open>init_material\<close> and \<open>init_source\<close> are those of the class. The messages
  printed when \<open>verbose\<close> is set, the figure lock and the figure counter are left out.
  \<open>h\<close> is the store at the call.
\<close>

definition init ::
  "engine \<Rightarrow> ('g, 'p, 's) externals \<Rightarrow> nat list \<Rightarrow> nat list \<Rightarrow> ('g, 's) store \<Rightarrow> space \<Rightarrow> addr \<Rightarrow> addr
     \<Rightarrow> ('g, 'p, 's) fdtd outcome" where
  "init cls X sched1 sched2 h sp geom_list0 src_list0 =
     (case deepcopy_geom_list h geom_list0 of (h, gl) \<Rightarrow>
      let h = init_geom_objs X sp (list_at h gl) h;
          tree = list_at h gl
      in
      case deepcopy_src_list h src_list0 of (h, sl) \<Rightarrow>
      let h = init_src_objs X tree sp (list_at h sl) h;
          s = \<lparr>store = h, lock = (\<lambda>c. False), space = sp,
               geom_list = gl, geom_tree = tree, src_list = sl,
               dx = space_dx sp, dy = space_dy sp, dz = space_dz sp, dt = space_dt sp,
               time_step = \<lparr>ts_n = 0, ts_t = 0\<rparr>,
               fld = get_storage X sp, material = get_material_storage X sp,
               events = []\<rparr>
      in seq (init_material cls X sched1 s) (init_source cls X sched2))"

fun spec_partner1 :: "component \<Rightarrow> component" where
  "spec_partner1 E_x = H_z" | "spec_partner1 E_y = H_x" | "spec_partner1 E_z = H_y"
| "spec_partner1 H_x = E_z" | "spec_partner1 H_y = E_x" | "spec_partner1 H_z = E_y"

fun spec_partner2 :: "component \<Rightarrow> component" where
  "spec_partner2 E_x = H_y" | "spec_partner2 E_y = H_z" | "spec_partner2 E_z = H_x"
| "spec_partner2 H_x = E_y" | "spec_partner2 H_y = E_z" | "spec_partner2 H_z = E_x"

fun spec_spacing1 :: "component \<Rightarrow> ('g, 'p, 's) fdtd \<Rightarrow> rat" where
  "spec_spacing1 E_x = dy" | "spec_spacing1 E_y = dz" | "spec_spacing1 E_z = dx"
| "spec_spacing1 H_x = dy" | "spec_spacing1 H_y = dz" | "spec_spacing1 H_z = dx"

fun spec_spacing2 :: "component \<Rightarrow> ('g, 'p, 's) fdtd \<Rightarrow> rat" where
  "spec_spacing2 E_x = dz" | "spec_spacing2 E_y = dx" | "spec_spacing2 E_z = dy"
| "spec_spacing2 H_x = dz" | "spec_spacing2 H_y = dx" | "spec_spacing2 H_z = dy"

definition rules_of :: "('g, 'p, 's) fdtd \<Rightarrow> component \<Rightarrow> 'p rule list" where
  "rules_of s c = map the (flat (material s c))"

definition invocations :: "component \<Rightarrow> ('g, 'p, 's) fdtd \<Rightarrow> 'p event list" where
  "invocations c s =
     map (\<lambda>mo. Invoke mo c (spec_partner1 c) (spec_partner2 c) (dt s) (spec_spacing1 c s) (spec_spacing2 c s))
       (rules_of s c)"

definition pass_result :: "('g, 'p, 's) externals \<Rightarrow> component \<Rightarrow> ('g, 'p, 's) fdtd \<Rightarrow> rat ndarray" where
  "pass_result X c s =
     foldl (\<lambda>a mo. update X mo a (fld s (spec_partner1 c)) (fld s (spec_partner2 c)) (dt s)
                     (spec_spacing1 c s) (spec_spacing2 c s))
       (fld s c) (rules_of s c)"

fun exports :: "component \<Rightarrow> ('g, 'p, 's) fdtd \<Rightarrow> 'p event list" where
  "exports E_x s =
     [Write_hdf5 (fld s E_x) '''' (0, 0, 0)
        (case shape (fld s E_x) of (h0, h1, h2) \<Rightarrow> (h0 + 1, h1 + 1, h2 + 1))]"
| "exports E_y s = []"
| "exports E_z s = []"
| "exports H_x s = []"
| "exports H_y s = []"
| "exports H_z s = []"

fun inner :: "task \<Rightarrow> ('g, 'p, 's) fdtd \<Rightarrow> 'p event list" where
  "inner (Update c) s = invocations c s"
| "inner (Write c) s = exports c s"
| "inner (Init_material c) s = []"
| "inner (Init_source c) s = []"

definition block :: "task \<Rightarrow> ('g, 'p, 's) fdtd \<Rightarrow> 'p event list" where
  "block m s = Begin m # inner m s @ [End m]"

fun stepping :: "task \<Rightarrow> bool" where
  "stepping (Update c) = True"
| "stepping (Write c) = True"
| "stepping (Init_material c) = False"
| "stepping (Init_source c) = False"

definition ready :: "('g, 'p, 's) fdtd \<Rightarrow> bool" where
  "ready s = (\<forall>c. \<not> lock s c \<and> None \<notin> set (flat (material s c)))"

definition phase_fld ::
  "('g, 'p, 's) externals \<Rightarrow> task list \<Rightarrow> ('g, 'p, 's) fdtd \<Rightarrow> component \<Rightarrow> rat ndarray" where
  "phase_fld X ms s = (\<lambda>c. if Update c \<in> set ms then pass_result X c s else fld s c)"

definition phase_ok :: "task list \<Rightarrow> bool" where
  "phase_ok ms =
     (distinct ms \<and> (\<forall>m \<in> set ms. stepping m) \<and>
      (\<forall>c. Update c \<in> set ms \<longrightarrow>
         Update (spec_partner1 c) \<notin> set ms \<and> Update (spec_partner2 c) \<notin> set ms \<and>
         Write c \<notin> set ms))"

text \<open>
  Consecutive calls of \<open>FDTD.step\<close>, one pair of schedules for each call, as in the
  caller's loop \<open>while ...: a.step()\<close>.
\<close>

fun FDTD_steps ::
  "('g, 'p, 's) externals \<Rightarrow> (nat list \<times> nat list) list \<Rightarrow> ('g, 'p, 's) fdtd
     \<Rightarrow> ('g, 'p, 's) fdtd outcome" where
  "FDTD_steps X [] s = Returned s"
| "FDTD_steps X ((sched1, sched2) # rest) s =
     seq (FDTD_step X sched1 sched2 s) (FDTD_steps X rest)"

text \<open>
  The two groups of threads of \<open>FDTD.step\<close>, the engine as the electric phase leaves its
  field arrays, and the events a call has added to those that were there before it.
\<close>

definition E_threads :: "task list" where
  "E_threads = [Update E_x, Update E_y, Update E_z, Write H_x, Write H_y, Write H_z]"

definition H_threads :: "task list" where
  "H_threads = [Update H_x, Update H_y, Update H_z, Write E_x, Write E_y, Write E_z]"

definition after_E :: "('g, 'p, 's) externals \<Rightarrow> ('g, 'p, 's) fdtd \<Rightarrow> ('g, 'p, 's) fdtd" where
  "after_E X s = s\<lparr>fld := phase_fld X E_threads s\<rparr>"

definition added :: "('g, 'p, 's) fdtd \<Rightarrow> ('g, 'p, 's) fdtd \<Rightarrow> 'p event list" where
  "added s s' = drop (length (events s)) (events s')"

text \<open>
  A monitor of the leapfrog order, reading the events one by one. It is in the electric
  or in the magnetic phase and knows which updates of the phase have begun and which
  have ended. It refuses an update of the other phase, an update that begins twice,
  ends twice or ends by an exception, a rule invoked outside its own update, and a
  phase that is closed (by the time state being set) before all three updates of the
  phase have ended. Closing a phase opens the other one.
\<close>

datatype phase = Electric | Magnetic

fun phase_of :: "component \<Rightarrow> phase" where
  "phase_of E_x = Electric" | "phase_of E_y = Electric" | "phase_of E_z = Electric"
| "phase_of H_x = Magnetic" | "phase_of H_y = Magnetic" | "phase_of H_z = Magnetic"

fun other_phase :: "phase \<Rightarrow> phase" where
  "other_phase Electric = Magnetic"
| "other_phase Magnetic = Electric"

type_synonym monitor_state = "phase \<times> component set \<times> component set"

fun observe :: "monitor_state \<Rightarrow> 'p event \<Rightarrow> monitor_state option" where
  "observe (ph, B, F) (Begin (Update c)) =
     (if phase_of c = ph \<and> c \<notin> B then Some (ph, insert c B, F) else None)"
| "observe (ph, B, F) (End (Update c)) =
     (if phase_of c = ph \<and> c \<in> B \<and> c \<notin> F then Some (ph, B, insert c F) else None)"
| "observe (ph, B, F) (Died (Update c) e) = None"
| "observe (ph, B, F) (Invoke mo c p1 p2 h d1 d2) =
     (if phase_of c = ph \<and> c \<in> B \<and> c \<notin> F then Some (ph, B, F) else None)"
| "observe (ph, B, F) (Time_state ts) =
     (if F = {c. phase_of c = ph} then Some (other_phase ph, {}, {}) else None)"
| "observe (ph, B, F) (Begin (Write c)) = Some (ph, B, F)"
| "observe (ph, B, F) (Begin (Init_material c)) = Some (ph, B, F)"
| "observe (ph, B, F) (Begin (Init_source c)) = Some (ph, B, F)"
| "observe (ph, B, F) (End (Write c)) = Some (ph, B, F)"
| "observe (ph, B, F) (End (Init_material c)) = Some (ph, B, F)"
| "observe (ph, B, F) (End (Init_source c)) = Some (ph, B, F)"
| "observe (ph, B, F) (Died (Write c) e) = Some (ph, B, F)"
| "observe (ph, B, F) (Died (Init_material c) e) = Some (ph, B, F)"
| "observe (ph, B, F) (Died (Init_source c) e) = Some (ph, B, F)"
| "observe (ph, B, F) (Write_hdf5 a name lo hi) = Some (ph, B, F)"

fun monitor :: "monitor_state \<Rightarrow> 'p event list \<Rightarrow> monitor_state option" where
  "monitor st [] = Some st"
| "monitor st (ev # evs) = (case observe st ev of None \<Rightarrow> None | Some st' \<Rightarrow> monitor st' evs)"

text \<open>The events of a trace that invoke a rule on the array of component \<open>c\<close>.\<close>

fun invokes :: "component \<Rightarrow> 'p event \<Rightarrow> bool" where
  "invokes c (Invoke mo own p1 p2 h d1 d2) = (own = c)"
| "invokes c (Begin m) = False"
| "invokes c (End m) = False"
| "invokes c (Died m e) = False"
| "invokes c (Write_hdf5 a name lo hi) = False"
| "invokes c (Time_state ts) = False"

fun is_export :: "'p event \<Rightarrow> bool" where
  "is_export (Write_hdf5 a name lo hi) = True"
| "is_export (Invoke mo own p1 p2 h d1 d2) = False"
| "is_export (Begin m) = False"
| "is_export (End m) = False"
| "is_export (Died m e) = False"
| "is_export (Time_state ts) = False"

text \<open>The time state one and two half steps after that of \<open>s\<close>.\<close>

definition half_step :: "('g, 'p, 's) fdtd \<Rightarrow> TimeStep" where
  "half_step s =
     \<lparr>ts_n = ts_n (time_step s) + 1/2, ts_t = (ts_n (time_step s) + 1/2) * dt s\<rparr>"

definition full_step :: "('g, 'p, 's) fdtd \<Rightarrow> TimeStep" where
  "full_step s =
     \<lparr>ts_n = ts_n (time_step s) + 1/2 + 1/2, ts_t = (ts_n (time_step s) + 1/2 + 1/2) * dt s\<rparr>"

fun time_states :: "'p event list \<Rightarrow> TimeStep list" where
  "time_states [] = []"
| "time_states (Time_state ts # evs) = ts # time_states evs"
| "time_states (Begin m # evs) = time_states evs"
| "time_states (End m # evs) = time_states evs"
| "time_states (Died m e # evs) = time_states evs"
| "time_states (Invoke mo own p1 p2 h d1 d2 # evs) = time_states evs"
| "time_states (Write_hdf5 a name lo hi # evs) = time_states evs"

fun outline :: "'p event list \<Rightarrow> 'p event list" where
  "outline [] = []"
| "outline (Invoke mo own p1 p2 h d1 d2 # evs) = outline evs"
| "outline (Begin m # evs) = Begin m # outline evs"
| "outline (End m # evs) = End m # outline evs"
| "outline (Died m e # evs) = Died m e # outline evs"
| "outline (Write_hdf5 a name lo hi # evs) = Write_hdf5 a name lo hi # outline evs"
| "outline (Time_state ts # evs) = Time_state ts # outline evs"

section \<open>A concrete engine\<close>

text \<open>
  A small world to run the engines in. A geometric object is the largest \<open>x\<close> it
  covers, and hands out that number as its rule; \<open>object_of_point\<close> is the first object
  of the tree that covers the point. A rule adds to every cell of its array. Sources
  leave the grid as it is. Every array has the shape \<open>(2, 2, 2)\<close>.
\<close>

definition demo_externals :: "(rat, rat, nat) externals" where
  "demo_externals =
     \<lparr>geom_init = (\<lambda>g sp. g),
      src_init = (\<lambda>so gs sp. so),
      get_storage = (\<lambda>sp c. \<lparr>shape = (2, 2, 2), cells = (\<lambda>i. 0)\<rparr>),
      get_material_storage = (\<lambda>sp c. \<lparr>shape = (2, 2, 2), cells = (\<lambda>i. None)\<rparr>),
      object_of_point = (\<lambda>gs co. case co of (x, y, z) \<Rightarrow> find (\<lambda>g. x \<le> g) gs),
      get_pointwise_material = (\<lambda>g c i co. g),
      update = (\<lambda>mo own p1 p2 h d1 d2.
        case mo of
          Dummy c i k \<Rightarrow> own
        | Pointwise eps \<Rightarrow>
            own\<lparr>cells := (\<lambda>i. cells own i + h * (cells p1 i / d1 - cells p2 i / d2) / eps)\<rparr>),
      set_pointwise_source = (\<lambda>so c m sp. m)\<rparr>"

definition demo_space :: space where
  "demo_space =
     \<lparr>space_dx = 1, space_dy = 1, space_dz = 1, space_dt = 1,
      index_to_space = (\<lambda>c i. case i of (i, j, k) \<Rightarrow> (of_nat i, of_nat j, of_nat k)),
      space_to_index = (\<lambda>c co. (0, 0, 0))\<rparr>"

text \<open>
  The caller's store: the geometry list at address 0 holds the object at address 2,
  which covers every \<open>x\<close> up to 5; the source list at address 1 is empty.
\<close>

definition demo_store :: "(rat, nat) store" where
  "demo_store =
     \<lparr>alloc = 3, list_at = (\<lambda>a. if a = 0 then [2] else []), geom_at = (\<lambda>a. 5),
      src_at = (\<lambda>a. 0)\<rparr>"

text \<open>
  The engine that \<open>FDTD(demo_space, geom_list, src_list)\<close> builds in that store: the
  copies are at the addresses 3 to 5, no lock is held, the fields are zero, and every
  cell of every material grid has its rule.
\<close>

definition demo_engine :: "(rat, rat, nat) fdtd" where
  "demo_engine =
     \<lparr>store = demo_store\<lparr>alloc := 6, list_at := (\<lambda>a. if a = 0 then [2] else if a = 4 then [3] else [])\<rparr>,
      lock = (\<lambda>c. False), space = demo_space,
      geom_list = 4, geom_tree = [3], src_list = 5,
      dx = 1, dy = 1, dz = 1, dt = 1,
      time_step = \<lparr>ts_n = 0, ts_t = 0\<rparr>,
      fld = (\<lambda>c. \<lparr>shape = (2, 2, 2), cells = (\<lambda>i. 0)\<rparr>),
      material = (\<lambda>c. \<lparr>shape = (2, 2, 2),
        cells = (\<lambda>i. Some (if is_boundary c (2, 2, 2) i then Dummy c i 1 else Pointwise 5))\<rparr>),
      events = []\<rparr>"

text \<open>
  The engine as the constructor has it when it calls \<open>init_material\<close>, in a store \<open>h\<close>:
  the material grids are still empty. In \<open>gap_store\<close> the geometric objects cover only
  the points with \<open>x\<close> up to 1/2, so the cells with first index 1 have no covering
  object.
\<close>

definition blank_engine :: "(rat, nat) store \<Rightarrow> (rat, rat, nat) fdtd" where
  "blank_engine h =
     \<lparr>store = h, lock = (\<lambda>c. False), space = demo_space,
      geom_list = 4, geom_tree = [3], src_list = 5,
      dx = 1, dy = 1, dz = 1, dt = 1,
      time_step = \<lparr>ts_n = 0, ts_t = 0\<rparr>,
      fld = (\<lambda>c. \<lparr>shape = (2, 2, 2), cells = (\<lambda>i. 0)\<rparr>),
      material = (\<lambda>c. \<lparr>shape = (2, 2, 2), cells = (\<lambda>i. None)\<rparr>),
      events = []\<rparr>"

definition gap_store :: "(rat, nat) store" where
  "gap_store = (store demo_engine)\<lparr>geom_at := (\<lambda>a. 1/2)\<rparr>"

section \<open>Vocabulary for the construction\<close>

text \<open>
  The covering object the tree finds for the cell \<open>i\<close> of component \<open>c\<close>; a cell with a
  gap is one that is not on the boundary and has no covering object; the rule the
  builder assigns to a cell; the cells a pass visits before it meets a gap (all of them
  when there is none), in index order; the grid the pass leaves behind.
\<close>

definition classify ::
  "('g, 'p, 's) externals \<Rightarrow> ('g, 'p, 's) fdtd \<Rightarrow> component \<Rightarrow> idx \<Rightarrow> 'g option" where
  "classify X s c i =
     object_of_point X (map (geom_at (store s)) (geom_tree s)) (index_to_space (space s) c i)"

definition gap :: "('g, 'p, 's) externals \<Rightarrow> ('g, 'p, 's) fdtd \<Rightarrow> component \<Rightarrow> idx \<Rightarrow> bool" where
  "gap X s c i = (\<not> is_boundary c (shape (fld s c)) i \<and> classify X s c i = None)"

definition built_rule ::
  "('g, 'p, 's) externals \<Rightarrow> ('g, 'p, 's) fdtd \<Rightarrow> component \<Rightarrow> idx \<Rightarrow> 'p rule" where
  "built_rule X s c i =
     (if is_boundary c (shape (fld s c)) i then Dummy c i 1
      else Pointwise (get_pointwise_material X (the (classify X s c i)) c i
             (index_to_space (space s) c i)))"

definition visited :: "('g, 'p, 's) externals \<Rightarrow> ('g, 'p, 's) fdtd \<Rightarrow> component \<Rightarrow> idx list" where
  "visited X s c = takeWhile (\<lambda>i. \<not> gap X s c i) (ndindex (shape (fld s c)))"

definition grid_after ::
  "('g, 'p, 's) externals \<Rightarrow> ('g, 'p, 's) fdtd \<Rightarrow> component \<Rightarrow> 'p rule option ndarray" where
  "grid_after X s c =
     (material s c)\<lparr>cells :=
        (\<lambda>i. if i \<in> set (visited X s c) then Some (built_rule X s c i)
             else cells (material s c) i)\<rparr>"

definition has_gap :: "('g, 'p, 's) externals \<Rightarrow> ('g, 'p, 's) fdtd \<Rightarrow> component \<Rightarrow> bool" where
  "has_gap X s c = list_ex (gap X s c) (ndindex (shape (fld s c)))"

text \<open>
  The boundary of a component in the words of the specification: an electric
  component's cell is on the boundary when one of its two transverse indices is at the
  upper edge of the array, a magnetic component's cell when one of its two transverse
  indices is zero. The transverse axes of the x components are 1 and 2, of the y
  components 2 and 0, of the z components 0 and 1.
\<close>

fun spec_transverse :: "component \<Rightarrow> nat \<times> nat" where
  "spec_transverse E_x = (1, 2)" | "spec_transverse E_y = (2, 0)" | "spec_transverse E_z = (0, 1)"
| "spec_transverse H_x = (1, 2)" | "spec_transverse H_y = (2, 0)" | "spec_transverse H_z = (0, 1)"

fun axis :: "nat \<Rightarrow> idx \<Rightarrow> nat" where
  "axis a (i, j, k) = (if a = 0 then i else if a = 1 then j else k)"

definition spec_boundary :: "component \<Rightarrow> idx \<Rightarrow> idx \<Rightarrow> bool" where
  "spec_boundary c shp i =
     (case spec_transverse c of (a, b) \<Rightarrow>
        if phase_of c = Electric
        then int (axis a i) = int (axis a shp) - 1 \<or> int (axis b i) = int (axis b shp) - 1
        else axis a i = 0 \<or> axis b i = 0)"

text \<open>The grid of component \<open>c\<close> after the overlays of the sources at the addresses \<open>as\<close>.\<close>

definition injected ::
  "('g, 'p, 's) externals \<Rightarrow> ('g, 'p, 's) fdtd \<Rightarrow> component \<Rightarrow> addr list \<Rightarrow> 'p rule option ndarray" where
  "injected X s c as =
     foldl (\<lambda>m a. set_pointwise_source X (src_at (store s) a) c m (space s)) (material s c) as"

text \<open>
  The components each class builds and injects (those of its \<open>init_material\<close> and
  \<open>init_source\<close> threads), the condition under which the pass of a component can run
  (its lock is free and its material array has the shape of its field array), and the
  events the thread of a construction task leaves.
\<close>

fun components_of :: "engine \<Rightarrow> component list" where
  "components_of FDTD = [E_x, E_y, E_z, H_x, H_y, H_z]"
| "components_of TExFDTD = [E_y, E_z, H_x]"
| "components_of TEyFDTD = [E_z, E_x, H_y]"
| "components_of TEzFDTD = [E_x, E_y, H_z]"
| "components_of TMxFDTD = [H_y, H_z, E_x]"
| "components_of TMyFDTD = [H_z, H_x, E_y]"
| "components_of TMzFDTD = [H_x, H_y, E_z]"
| "components_of TEMxFDTD = [E_y, H_z]"
| "components_of TEMyFDTD = [E_z, H_x]"
| "components_of TEMzFDTD = [E_x, H_y]"

definition buildable :: "('g, 'p, 's) fdtd \<Rightarrow> component \<Rightarrow> bool" where
  "buildable s c = (\<not> lock s c \<and> shape (material s c) = shape (fld s c))"

fun init_block :: "('g, 'p, 's) externals \<Rightarrow> ('g, 'p, 's) fdtd \<Rightarrow> task \<Rightarrow> 'p event list" where
  "init_block X s (Init_material c) =
     [Begin (Init_material c),
      if has_gap X s c then Died (Init_material c) ClassificationError
      else End (Init_material c)]"
| "init_block X s (Init_source c) = [Begin (Init_source c), End (Init_source c)]"
| "init_block X s (Update c) = []"
| "init_block X s (Write c) = []"

section \<open>Vocabulary for the ownership of the configuration lists\<close>

text \<open>
  The engine \<open>s\<close> in another store. What an engine reads through its references: the
  objects of its geometry tree, its source list and the sources in it; \<open>reads_agree\<close>
  says that a store \<open>h\<close> shows the engine the same as its own. \<open>frame\<close> says that a
  state has the store and the references of another. A procedure is
  \<open>store_independent\<close> for a store \<open>h\<close> when, on every engine whose reads agree with \<open>h\<close>,
  it does in \<open>h\<close> what it does in the engine's own store, and keeps the store and the
  references.
\<close>

definition with_store :: "('g, 's) store \<Rightarrow> ('g, 'p, 's) fdtd \<Rightarrow> ('g, 'p, 's) fdtd" where
  "with_store h s = s\<lparr>store := h\<rparr>"

definition reads_agree :: "('g, 'p, 's) fdtd \<Rightarrow> ('g, 's) store \<Rightarrow> bool" where
  "reads_agree s h =
     (map (geom_at h) (geom_tree s) = map (geom_at (store s)) (geom_tree s) \<and>
      list_at h (src_list s) = list_at (store s) (src_list s) \<and>
      map (src_at h) (list_at (store s) (src_list s)) =
        map (src_at (store s)) (list_at (store s) (src_list s)))"

definition frame :: "('g, 'p, 's) fdtd \<Rightarrow> ('g, 'p, 's) fdtd \<Rightarrow> bool" where
  "frame s s' =
     (store s' = store s \<and> geom_list s' = geom_list s \<and> geom_tree s' = geom_tree s \<and>
      src_list s' = src_list s)"

fun outcome_all :: "('a \<Rightarrow> bool) \<Rightarrow> 'a outcome \<Rightarrow> bool" where
  "outcome_all P (Returned s) = P s"
| "outcome_all P (Raised e s) = P s"
| "outcome_all P Blocked = True"

definition store_independent ::
  "('g, 's) store \<Rightarrow> (('g, 'p, 's) fdtd \<Rightarrow> ('g, 'p, 's) fdtd outcome) \<Rightarrow> bool" where
  "store_independent h f =
     (\<forall>s. reads_agree s h \<longrightarrow>
        f (with_store h s) = map_outcome (with_store h) (f s) \<and> outcome_all (frame s) (f s))"

text \<open>
  The addresses a constructor call has allocated: those from the first free address of
  the caller's store \<open>h\<close> up to the first free address of the engine's store.
\<close>

definition owned :: "('g, 's) store \<Rightarrow> ('g, 'p, 's) fdtd \<Rightarrow> addr \<Rightarrow> bool" where
  "owned h e a = (alloc h \<le> a \<and> a < alloc (store e))"

definition agree_on_owned ::
  "('g, 's) store \<Rightarrow> ('g, 'p, 's) fdtd \<Rightarrow> ('g, 's) store \<Rightarrow> bool" where
  "agree_on_owned h e h2 =
     (\<forall>a. owned h e a \<longrightarrow>
        list_at h2 a = list_at (store e) a \<and> geom_at h2 a = geom_at (store e) a \<and>
        src_at h2 a = src_at (store e) a)"

text \<open>
  Consecutive calls of \<open>step\<close> on an engine of class \<open>cls\<close>, each with the schedules of
  its two phases. The configuration an engine holds, read in a store \<open>h\<close>: the objects of
  its geometry list, the objects of its geometry tree and the sources of its source list.
\<close>

fun steps ::
  "engine \<Rightarrow> ('g, 'p, 's) externals \<Rightarrow> (nat list \<times> nat list) list \<Rightarrow> ('g, 'p, 's) fdtd
     \<Rightarrow> ('g, 'p, 's) fdtd outcome" where
  "steps cls X [] s = Returned s"
| "steps cls X ((sched1, sched2) # rest) s =
     seq (step cls X sched1 sched2 s) (steps cls X rest)"

definition configuration ::
  "('g, 's) store \<Rightarrow> ('g, 'p, 's) fdtd \<Rightarrow> 'g list \<times> 'g list \<times> 's list" where
  "configuration h s =
     (map (geom_at h) (list_at h (geom_list s)), map (geom_at h) (geom_tree s),
      map (src_at h) (list_at h (src_list s)))"

section \<open>A constructed engine\<close>

text \<open>
  What \<open>FDTD(demo_space, geom_list, src_list)\<close> returns in \<open>demo_store\<close>, with the
  geometry list at address 0 and the source list at address 1, when the scheduler runs
  the \<open>init_material\<close> threads in the order Hx, Ey, Ex, Ez, Hy, Hz and the
  \<open>init_source\<close> threads in the order Ez, Ex, Ey, Hx, Hy, Hz. The copy of the geometric
  object is at address 3, the copy of the geometry list at address 4 and the copy of the
  source list at address 5.
\<close>

definition demo_built :: "(rat, rat, nat) fdtd" where
  "demo_built =
     \<lparr>store = \<lparr>alloc = 6,
               list_at = (\<lambda>a. if a = 0 then [2] else if a = 4 then [3] else []),
               geom_at = (\<lambda>a. 5), src_at = (\<lambda>a. 0)\<rparr>,
      lock = (\<lambda>c. False), space = demo_space,
      geom_list = 4, geom_tree = [3], src_list = 5,
      dx = 1, dy = 1, dz = 1, dt = 1,
      time_step = \<lparr>ts_n = 0, ts_t = 0\<rparr>,
      fld = (\<lambda>c. \<lparr>shape = (2, 2, 2), cells = (\<lambda>i. 0)\<rparr>),
      material = (\<lambda>c. \<lparr>shape = (2, 2, 2),
        cells = (\<lambda>i. if in_bounds (2, 2, 2) i
                      then Some (if is_boundary c (2, 2, 2) i then Dummy c i 1 else Pointwise 5)
                      else None)\<rparr>),
      events =
        concat (map (\<lambda>c. [Begin (Init_material c), End (Init_material c)])
                  [H_x, E_y, E_x, E_z, H_y, H_z]) @
        concat (map (\<lambda>c. [Begin (Init_source c), End (Init_source c)])
                  [E_z, E_x, E_y, H_x, H_y, H_z])\<rparr>"

text \<open>
  The store after the caller has emptied its geometry list, put the address 2 in its
  source list, and shrunk its geometric object to the points with \<open>x\<close> up to 1/2.
\<close>

definition mutated_store :: "(rat, nat) store" where
  "mutated_store =
     \<lparr>alloc = 6,
      list_at = (\<lambda>a. if a = 1 then [2] else if a = 4 then [3] else []),
      geom_at = (\<lambda>a. if a = 2 then 1/2 else 5), src_at = (\<lambda>a. 0)\<rparr>"

section \<open>Vocabulary for the cells of a grid\<close>

text \<open>
  The cells of an array of shape \<open>shp\<close> are those at the indices within the shape
  (\<open>in_bounds shp\<close>); \<open>row_major\<close> is the order in which an array lays them out, the
  last index running fastest. An engine can be stepped when no lock is held and every
  cell of every material grid holds a rule. The geometry covers a component when every
  cell of the component's array that is not on the boundary has a covering object.
\<close>

fun row_major :: "idx \<Rightarrow> idx \<Rightarrow> bool" where
  "row_major (i, j, k) (i', j', k') = (i < i' \<or> (i = i' \<and> (j < j' \<or> (j = j' \<and> k < k'))))"

definition steppable :: "('g, 'p, 's) fdtd \<Rightarrow> bool" where
  "steppable s =
     (\<forall>c. \<not> lock s c \<and>
          (\<forall>i. in_bounds (shape (material s c)) i \<longrightarrow> cells (material s c) i \<noteq> None))"

definition covered :: "('g, 'p, 's) externals \<Rightarrow> ('g, 'p, 's) fdtd \<Rightarrow> component \<Rightarrow> bool" where
  "covered X s c = (\<forall>i. in_bounds (shape (fld s c)) i \<longrightarrow> \<not> gap X s c i)"

lemma for_each_invoke:
  assumes "own \<noteq> p1" "own \<noteq> p2"
    and d1: "\<And>s f e. d1 (s\<lparr>fld := f, events := e\<rparr>) = d1 s"
    and d2: "\<And>s f e. d2 (s\<lparr>fld := f, events := e\<rparr>) = d2 s"
  shows "None \<notin> set rs \<Longrightarrow>
    for_each_rule (\<lambda>mo s. invoke X mo own p1 p2 (dt s) (d1 s) (d2 s) s) rs s =
      Returned (s\<lparr>fld := (fld s)(own := foldl (\<lambda>a mo. update X mo a (fld s p1) (fld s p2) (dt s) (d1 s) (d2 s))
                                       (fld s own) (map the rs)),
                 events := events s @ map (\<lambda>mo. Invoke mo own p1 p2 (dt s) (d1 s) (d2 s)) (map the rs)\<rparr>)"
proof (induction rs arbitrary: s)
  case Nil
  show ?case by simp
next
  case (Cons r rs)
  then obtain mo where r: "r = Some mo" by (cases r) auto
  from Cons.prems have "None \<notin> set rs" by simp
  note IH = Cons.IH [OF this, of "invoke X mo own p1 p2 (dt s) (d1 s) (d2 s) s"]
  have step: "for_each_rule (\<lambda>mo s. invoke X mo own p1 p2 (dt s) (d1 s) (d2 s) s) (r # rs) s =
    for_each_rule (\<lambda>mo s. invoke X mo own p1 p2 (dt s) (d1 s) (d2 s) s) rs
      (invoke X mo own p1 p2 (dt s) (d1 s) (d2 s) s)"
    by (simp add: r)
  show ?case
    unfolding step IH using assms(1,2)
    by (simp add: invoke_def r d1 d2) (simp add: fun_upd_def)
qed

lemma update_pass_invoke:
  assumes "own \<noteq> p1" "own \<noteq> p2"
    and d1: "\<And>s f e. d1 (s\<lparr>fld := f, events := e\<rparr>) = d1 s"
    and d2: "\<And>s f e. d2 (s\<lparr>fld := f, events := e\<rparr>) = d2 s"
    and d1': "\<And>s l. d1 (s\<lparr>lock := l\<rparr>) = d1 s"
    and d2': "\<And>s l. d2 (s\<lparr>lock := l\<rparr>) = d2 s"
    and free: "\<not> lock s own" and full: "None \<notin> set (flat (material s own))"
  shows "update_pass own (\<lambda>mo s. invoke X mo own p1 p2 (dt s) (d1 s) (d2 s) s) s =
      Returned (s\<lparr>fld := (fld s)(own := foldl (\<lambda>a mo. update X mo a (fld s p1) (fld s p2) (dt s) (d1 s) (d2 s))
                                       (fld s own) (map the (flat (material s own)))),
                 events := events s @
                   map (\<lambda>mo. Invoke mo own p1 p2 (dt s) (d1 s) (d2 s)) (map the (flat (material s own)))\<rparr>)"
proof -
  have idem: "(lock s)(own := False) = lock s"
    using free by (simp add: fun_upd_idem)
  show ?thesis
    using free full assms(1,2)
    by (simp add: update_pass_def acquire_def release_def
        for_each_invoke [OF assms(1,2), of d1 d2, OF d1 d2] d1' d2' idem)
qed

lemma target_Update:
  assumes "\<not> lock s c" "None \<notin> set (flat (material s c))"
  shows "target X (Update c) s =
           Returned (s\<lparr>fld := (fld s)(c := pass_result X c s), events := events s @ invocations c s\<rparr>)"
proof (cases c)
  case E_x
  show ?thesis using assms unfolding E_x
    by (simp add: update_ex_def update_pass_invoke pass_result_def invocations_def rules_of_def)
next
  case E_y
  show ?thesis using assms unfolding E_y
    by (simp add: update_ey_def update_pass_invoke pass_result_def invocations_def rules_of_def)
next
  case E_z
  show ?thesis using assms unfolding E_z
    by (simp add: update_ez_def update_pass_invoke pass_result_def invocations_def rules_of_def)
next
  case H_x
  show ?thesis using assms unfolding H_x
    by (simp add: update_hx_def update_pass_invoke pass_result_def invocations_def rules_of_def)
next
  case H_y
  show ?thesis using assms unfolding H_y
    by (simp add: update_hy_def update_pass_invoke pass_result_def invocations_def rules_of_def)
next
  case H_z
  show ?thesis using assms unfolding H_z
    by (simp add: update_hz_def update_pass_invoke pass_result_def invocations_def rules_of_def)
qed

lemma spec_spacing_cong:
  "dx s' = dx s \<Longrightarrow> dy s' = dy s \<Longrightarrow> dz s' = dz s \<Longrightarrow>
   spec_spacing1 c s' = spec_spacing1 c s \<and> spec_spacing2 c s' = spec_spacing2 c s"
  by (cases c) simp_all

lemma invocations_cong:
  assumes "material s' c = material s c" "dt s' = dt s" "dx s' = dx s" "dy s' = dy s" "dz s' = dz s"
  shows "invocations c s' = invocations c s"
  using assms spec_spacing_cong [of s' s c] by (simp add: invocations_def rules_of_def)

lemma pass_result_cong:
  assumes "material s' c = material s c" "dt s' = dt s" "dx s' = dx s" "dy s' = dy s" "dz s' = dz s"
    and "fld s' c = fld s c" "fld s' (spec_partner1 c) = fld s (spec_partner1 c)"
    and "fld s' (spec_partner2 c) = fld s (spec_partner2 c)"
  shows "pass_result X c s' = pass_result X c s"
  using assms spec_spacing_cong [of s' s c] by (simp add: pass_result_def rules_of_def)

lemma exports_cong: "fld s' c = fld s c \<Longrightarrow> exports c s' = exports c s"
  by (cases c) simp_all

lemma target_Write: "target X (Write c) s = Returned (s\<lparr>events := events s @ exports c s\<rparr>)"
  by (cases c)
    (simp_all add: write_ex_def write_ey_def write_ez_def write_hx_def write_hy_def write_hz_def
      emit_def split: prod.splits)

lemma call_stepping:
  assumes "ready s" "stepping m"
  shows "call X m s = Returned (s\<lparr>fld := phase_fld X [m] s, events := events s @ block m s\<rparr>)"
proof (cases m)
  case (Update c)
  have "\<not> lock s c" "None \<notin> set (flat (material s c))"
    using assms(1) by (simp_all add: ready_def)
  then have "target X (Update c) (emit (Begin (Update c)) s) =
      Returned ((emit (Begin (Update c)) s)\<lparr>fld := (fld s)(c := pass_result X c (emit (Begin (Update c)) s)),
        events := events s @ [Begin (Update c)] @ invocations c (emit (Begin (Update c)) s)\<rparr>)"
    using target_Update [of "emit (Begin (Update c)) s" c X] by (simp add: emit_def)
  moreover have "pass_result X c (emit (Begin (Update c)) s) = pass_result X c s"
    by (rule pass_result_cong) (simp_all add: emit_def)
  moreover have "invocations c (emit (Begin (Update c)) s) = invocations c s"
    by (rule invocations_cong) (simp_all add: emit_def)
  moreover have "phase_fld X [Update c] s = (fld s)(c := pass_result X c s)"
    by (auto simp: phase_fld_def)
  ultimately show ?thesis
    by (simp add: call_def Update emit_def block_def)
next
  case (Write c)
  have "exports c (emit (Begin (Write c)) s) = exports c s"
    by (rule exports_cong) (simp add: emit_def)
  moreover have "phase_fld X [Write c] s = fld s"
    by (auto simp: phase_fld_def)
  ultimately show ?thesis
    by (simp add: call_def Write emit_def block_def target_Write)
next
  case (Init_material c)
  with assms show ?thesis by simp
next
  case (Init_source c)
  with assms show ?thesis by simp
qed

lemma run_thread_stepping:
  assumes "ready s" "stepping m"
  shows "run_thread X m s = Some (s\<lparr>fld := phase_fld X [m] s, events := events s @ block m s\<rparr>)"
  by (simp add: run_thread_def call_stepping [OF assms])

lemma phase_ok_Cons: "phase_ok (m # ms) \<Longrightarrow> phase_ok ms"
  by (auto simp: phase_ok_def)

lemma run_threads_phase:
  "phase_ok ms \<Longrightarrow> ready s \<Longrightarrow>
   run_threads X ms s =
     Some (s\<lparr>fld := phase_fld X ms s, events := events s @ concat (map (\<lambda>m. block m s) ms)\<rparr>)"
proof (induction ms arbitrary: s)
  case Nil
  have "phase_fld X [] s = fld s" by (auto simp: phase_fld_def)
  then show ?case by simp
next
  case (Cons m ms)
  define s1 where "s1 = s\<lparr>fld := phase_fld X [m] s, events := events s @ block m s\<rparr>"
  have st: "stepping m" using Cons.prems(1) by (simp add: phase_ok_def)
  have run: "run_thread X m s = Some s1"
    using run_thread_stepping [OF Cons.prems(2) st] by (simp add: s1_def)
  have ready1: "ready s1" using Cons.prems(2) by (simp add: ready_def s1_def)
  note IH = Cons.IH [OF phase_ok_Cons [OF Cons.prems(1)] ready1]
  have same: "fld s1 c = fld s c" if "m \<noteq> Update c" for c
    using that by (simp add: s1_def phase_fld_def)
  have pass: "pass_result X c s1 = pass_result X c s" if "Update c \<in> set ms" for c
  proof (rule pass_result_cong)
    from that Cons.prems(1) have "m \<noteq> Update c" "m \<noteq> Update (spec_partner1 c)"
      "m \<noteq> Update (spec_partner2 c)"
      by (auto simp: phase_ok_def)
    then show "fld s1 c = fld s c" "fld s1 (spec_partner1 c) = fld s (spec_partner1 c)"
      "fld s1 (spec_partner2 c) = fld s (spec_partner2 c)"
      by (simp_all add: same)
  qed (simp_all add: s1_def)
  have flds: "phase_fld X ms s1 = phase_fld X (m # ms) s"
  proof
    fix c
    show "phase_fld X ms s1 c = phase_fld X (m # ms) s c"
    proof (cases "Update c \<in> set ms")
      case True
      then show ?thesis by (simp add: phase_fld_def pass)
    next
      case False
      then show ?thesis by (auto simp: phase_fld_def s1_def)
    qed
  qed
  have blocks: "block m' s1 = block m' s" if "m' \<in> set ms" for m'
  proof (cases m')
    case (Update c)
    have "invocations c s1 = invocations c s"
      by (rule invocations_cong) (simp_all add: s1_def)
    then show ?thesis by (simp add: block_def Update)
  next
    case (Write c)
    from that Cons.prems(1) have "m \<noteq> Update c"
      by (auto simp: phase_ok_def Write)
    then have "exports c s1 = exports c s"
      by (intro exports_cong same)
    then show ?thesis by (simp add: block_def Write)
  qed (simp_all add: block_def)
  have "concat (map (\<lambda>m. block m s1) ms) = concat (map (\<lambda>m. block m s) ms)"
    using blocks by (induction ms) simp_all
  then show ?case
    by (simp add: run IH flds) (simp add: s1_def)
qed

lemma mset_pick_order: "mset (pick_order sched ths) = mset ths"
proof (induction sched ths rule: pick_order.induct)
  case (3 c sched t ths)
  define i where "i = c mod length (t # ths)"
  have i: "i < length (t # ths)" by (simp add: i_def)
  have "mset (t # ths) = mset (take i (t # ths) @ (t # ths) ! i # drop (Suc i) (t # ths))"
    using id_take_nth_drop [OF i] by simp
  then show ?case
    using 3 [OF i_def] unfolding i_def by (simp add: Let_def)
qed simp_all

lemma phase_ok_pick_order: "phase_ok ths \<Longrightarrow> phase_ok (pick_order sched ths)"
proof -
  have "set (pick_order sched ths) = set ths" "distinct (pick_order sched ths) = distinct ths"
    using mset_pick_order [of sched ths] by (metis set_mset_mset, metis mset_eq_imp_distinct_iff)
  then show "phase_ok ths \<Longrightarrow> phase_ok (pick_order sched ths)"
    by (simp add: phase_ok_def)
qed

lemma fork_join_phase:
  assumes "phase_ok ths" "ready s"
  shows "fork_join X sched ths s =
     Returned (s\<lparr>fld := phase_fld X ths s,
                events := events s @ concat (map (\<lambda>m. block m s) (pick_order sched ths))\<rparr>)"
proof -
  have "set (pick_order sched ths) = set ths"
    using mset_pick_order [of sched ths] by (metis set_mset_mset)
  then have "phase_fld X (pick_order sched ths) s = phase_fld X ths s"
    by (simp add: phase_fld_def)
  then show ?thesis
    using run_threads_phase [OF phase_ok_pick_order [OF assms(1)] assms(2), of X sched]
    by (simp add: fork_join_def)
qed

lemma phase_ok_E_threads: "phase_ok E_threads"
  by (simp add: phase_ok_def E_threads_def)

lemma phase_ok_H_threads: "phase_ok H_threads"
  by (simp add: phase_ok_def H_threads_def)

lemma ready_cong:
  "lock s' = lock s \<Longrightarrow> material s' = material s \<Longrightarrow> ready s' = ready s"
  by (simp add: ready_def)

lemma FDTD_step_ready:
  assumes "ready s"
  shows "FDTD_step X sched1 sched2 s =
    Returned (s\<lparr>fld := phase_fld X H_threads (after_E X s),
               time_step := full_step s,
               events := events s @
                 concat (map (\<lambda>m. block m s) (pick_order sched1 E_threads)) @
                 [Time_state (half_step s)] @
                 concat (map (\<lambda>m. block m (after_E X s)) (pick_order sched2 H_threads)) @
                 [Time_state (full_step s)]\<rparr>)"
proof -
  define trE where "trE = concat (map (\<lambda>m. block m s) (pick_order sched1 E_threads))"
  define s1 where "s1 = s\<lparr>fld := phase_fld X E_threads s, events := events s @ trE\<rparr>"
  define s2 where "s2 = tick (t_set (n_add (1/2) s1))"
  have 1: "fork_join X sched1 E_threads s = Returned s1"
    using fork_join_phase [OF phase_ok_E_threads assms] by (simp add: s1_def trE_def)
  have ready2: "ready s2"
    using assms by (simp add: ready_def s2_def s1_def tick_def emit_def t_set_def n_add_def)
  have 2: "fork_join X sched2 H_threads s2 =
      Returned (s2\<lparr>fld := phase_fld X H_threads s2,
        events := events s2 @ concat (map (\<lambda>m. block m s2) (pick_order sched2 H_threads))\<rparr>)"
    by (rule fork_join_phase [OF phase_ok_H_threads ready2])
  have flds: "phase_fld X H_threads s2 = phase_fld X H_threads (after_E X s)"
  proof
    fix c
    have "pass_result X c s2 = pass_result X c (after_E X s)"
      by (rule pass_result_cong)
        (simp_all add: s2_def s1_def after_E_def tick_def emit_def t_set_def n_add_def)
    moreover have "fld s2 c = fld (after_E X s) c"
      by (simp add: s2_def s1_def after_E_def tick_def emit_def t_set_def n_add_def)
    ultimately show "phase_fld X H_threads s2 c = phase_fld X H_threads (after_E X s) c"
      by (simp add: phase_fld_def)
  qed
  have blocks: "block m s2 = block m (after_E X s)" for m
  proof (cases m)
    case (Update c)
    have "invocations c s2 = invocations c (after_E X s)"
      by (rule invocations_cong)
        (simp_all add: s2_def s1_def after_E_def tick_def emit_def t_set_def n_add_def)
    then show ?thesis by (simp add: block_def Update)
  next
    case (Write c)
    have "exports c s2 = exports c (after_E X s)"
      by (rule exports_cong)
        (simp add: s2_def s1_def after_E_def tick_def emit_def t_set_def n_add_def)
    then show ?thesis by (simp add: block_def Write)
  qed (simp_all add: block_def)
  show ?thesis
    unfolding FDTD_step_def E_threads_def [symmetric] H_threads_def [symmetric]
    by (simp add: 1 s2_def [symmetric] 2 flds blocks)
      (simp add: s2_def s1_def trE_def tick_def emit_def t_set_def n_add_def half_step_def
        full_step_def)
qed

lemma monitor_append:
  "monitor st (xs @ ys) = (case monitor st xs of None \<Rightarrow> None | Some st' \<Rightarrow> monitor st' ys)"
  by (induction xs arbitrary: st) (simp_all split: option.splits)

lemma monitor_invocations:
  assumes "phase_of c = ph" "c \<in> B" "c \<notin> F"
  shows "monitor (ph, B, F) (invocations c s) = Some (ph, B, F)"
proof -
  have "monitor (ph, B, F) (map (\<lambda>mo. Invoke mo c p1 p2 h d1 d2) rs) = Some (ph, B, F)" for p1 p2 h d1 d2 rs
    using assms by (induction rs) simp_all
  then show ?thesis by (simp add: invocations_def)
qed

lemma monitor_exports: "monitor st (exports c s) = Some st"
  by (cases c; cases st) simp_all

lemma monitor_block:
  assumes "stepping m" "\<And>c. m = Update c \<Longrightarrow> phase_of c = ph \<and> c \<notin> B \<and> c \<notin> F"
  shows "monitor (ph, B, F) (block m s) =
    Some (ph, {c. m = Update c} \<union> B, {c. m = Update c} \<union> F)"
proof (cases m)
  case (Update c)
  have *: "{c'. c = c'} = {c}" by auto
  from assms(2) [OF Update] have c: "phase_of c = ph" "c \<notin> B" "c \<notin> F" by simp_all
  then show ?thesis
    by (simp add: block_def Update monitor_append monitor_invocations *)
next
  case (Write c)
  then show ?thesis
    by (simp add: block_def monitor_append monitor_exports)
qed (use assms in simp_all)

lemma monitor_blocks:
  assumes "distinct ms" "\<forall>m \<in> set ms. stepping m"
    and "\<forall>c. Update c \<in> set ms \<longrightarrow> phase_of c = ph \<and> c \<notin> B \<and> c \<notin> F"
  shows "monitor (ph, B, F) (concat (map (\<lambda>m. block m s) ms)) =
    Some (ph, {c. Update c \<in> set ms} \<union> B, {c. Update c \<in> set ms} \<union> F)"
  using assms
proof (induction ms arbitrary: B F)
  case Nil
  then show ?case by simp
next
  case (Cons m ms)
  have 1: "monitor (ph, B, F) (block m s) =
      Some (ph, {c. m = Update c} \<union> B, {c. m = Update c} \<union> F)"
    by (rule monitor_block) (use Cons.prems in auto)
  have 2: "monitor (ph, {c. m = Update c} \<union> B, {c. m = Update c} \<union> F)
        (concat (map (\<lambda>m. block m s) ms)) =
      Some (ph, {c. Update c \<in> set ms} \<union> ({c. m = Update c} \<union> B),
            {c. Update c \<in> set ms} \<union> ({c. m = Update c} \<union> F))"
    by (rule Cons.IH) (use Cons.prems in auto)
  have 3: "{c. Update c \<in> set ms} \<union> ({c. m = Update c} \<union> S) = {c. Update c \<in> set (m # ms)} \<union> S"
    for S by auto
  show ?case
    by (simp only: list.map concat.simps monitor_append 1 2 3 option.case)
qed

lemma set_pick_order: "set (pick_order sched ths) = set ths"
  using mset_pick_order [of sched ths] by (metis set_mset_mset)

lemma distinct_pick_order: "distinct (pick_order sched ths) = distinct ths"
  using mset_pick_order [of sched ths] by (metis mset_eq_imp_distinct_iff)

lemma Electric_set: "{c. phase_of c = Electric} = {E_x, E_y, E_z}"
proof -
  have "(phase_of c = Electric) = (c \<in> {E_x, E_y, E_z})" for c by (cases c) simp_all
  then show ?thesis by blast
qed

lemma Magnetic_set: "{c. phase_of c = Magnetic} = {H_x, H_y, H_z}"
proof -
  have "(phase_of c = Magnetic) = (c \<in> {H_x, H_y, H_z})" for c by (cases c) simp_all
  then show ?thesis by blast
qed

lemma monitor_E_phase:
  "monitor (Electric, {}, {}) (concat (map (\<lambda>m. block m s) (pick_order sched E_threads))) =
     Some (Electric, {c. phase_of c = Electric}, {c. phase_of c = Electric})"
proof -
  have "{c. Update c \<in> set (pick_order sched E_threads)} = {c. phase_of c = Electric}"
    unfolding set_pick_order Electric_set by (auto simp: E_threads_def)
  moreover have "monitor (Electric, {}, {}) (concat (map (\<lambda>m. block m s) (pick_order sched E_threads))) =
     Some (Electric, {c. Update c \<in> set (pick_order sched E_threads)} \<union> {},
       {c. Update c \<in> set (pick_order sched E_threads)} \<union> {})"
    by (rule monitor_blocks) (auto simp: set_pick_order distinct_pick_order E_threads_def)
  ultimately show ?thesis by simp
qed

lemma monitor_H_phase:
  "monitor (Magnetic, {}, {}) (concat (map (\<lambda>m. block m s) (pick_order sched H_threads))) =
     Some (Magnetic, {c. phase_of c = Magnetic}, {c. phase_of c = Magnetic})"
proof -
  have "{c. Update c \<in> set (pick_order sched H_threads)} = {c. phase_of c = Magnetic}"
    unfolding set_pick_order Magnetic_set by (auto simp: H_threads_def)
  moreover have "monitor (Magnetic, {}, {}) (concat (map (\<lambda>m. block m s) (pick_order sched H_threads))) =
     Some (Magnetic, {c. Update c \<in> set (pick_order sched H_threads)} \<union> {},
       {c. Update c \<in> set (pick_order sched H_threads)} \<union> {})"
    by (rule monitor_blocks) (auto simp: set_pick_order distinct_pick_order H_threads_def)
  ultimately show ?thesis by simp
qed

lemma FDTD_step_monitor:
  assumes "ready s"
  shows "\<exists>s'. FDTD_step X sched1 sched2 s = Returned s' \<and> ready s' \<and>
    (\<exists>tr. events s' = events s @ tr \<and> monitor (Electric, {}, {}) tr = Some (Electric, {}, {}))"
proof -
  let ?trE = "concat (map (\<lambda>m. block m s) (pick_order sched1 E_threads))"
  let ?trH = "concat (map (\<lambda>m. block m (after_E X s)) (pick_order sched2 H_threads))"
  let ?tr = "?trE @ [Time_state (half_step s)] @ ?trH @ [Time_state (full_step s)]"
  have "monitor (Electric, {}, {}) ?tr = Some (Electric, {}, {})"
    by (simp add: monitor_append monitor_E_phase monitor_H_phase)
  moreover have "ready (s\<lparr>fld := f, time_step := ts, events := e\<rparr>)" for f ts e
    using assms by (simp add: ready_def)
  ultimately show ?thesis
    by (simp add: FDTD_step_ready [OF assms])
qed

lemma FDTD_steps_monitor:
  "ready s \<Longrightarrow>
   \<exists>s'. FDTD_steps X scheds s = Returned s' \<and> ready s' \<and>
    (\<exists>tr. events s' = events s @ tr \<and> monitor (Electric, {}, {}) tr = Some (Electric, {}, {}))"
proof (induction scheds arbitrary: s)
  case Nil
  then show ?case by simp
next
  case (Cons p scheds)
  obtain sched1 sched2 where p: "p = (sched1, sched2)" by (cases p)
  from FDTD_step_monitor [OF Cons.prems, of X sched1 sched2]
  obtain s1 tr1 where 1: "FDTD_step X sched1 sched2 s = Returned s1" "ready s1"
    "events s1 = events s @ tr1" "monitor (Electric, {}, {}) tr1 = Some (Electric, {}, {})"
    by blast
  from Cons.IH [OF 1(2)]
  obtain s2 tr2 where 2: "FDTD_steps X scheds s1 = Returned s2" "ready s2"
    "events s2 = events s1 @ tr2" "monitor (Electric, {}, {}) tr2 = Some (Electric, {}, {})"
    by blast
  have "monitor (Electric, {}, {}) (tr1 @ tr2) = Some (Electric, {}, {})"
    by (simp add: monitor_append 1 2)
  moreover have "events s2 = events s @ (tr1 @ tr2)" by (simp add: 1 2)
  ultimately show ?case
    using 1 2 by (simp add: p)
qed

lemma ndindex_222:
  "ndindex (2, 2, 2) =
     [(0, 0, 0), (0, 0, 1), (0, 1, 0), (0, 1, 1), (1, 0, 0), (1, 0, 1), (1, 1, 0), (1, 1, 1)]"
  by code_simp

lemma ready_demo_engine: "ready demo_engine"
  by (auto simp: ready_def demo_engine_def flat_def)

lemma time_states_append: "time_states (xs @ ys) = time_states xs @ time_states ys"
  by (induction xs rule: time_states.induct) simp_all

lemma time_states_block: "time_states (block m s) = []"
proof -
  have "time_states (map (\<lambda>mo. Invoke mo c p1 p2 h d1 d2) rs) = []" for c p1 p2 h d1 d2 rs
    by (induction rs) simp_all
  then have "time_states (invocations c s) = []" for c by (simp add: invocations_def)
  moreover have "time_states (exports c s) = []" for c by (cases c) simp_all
  ultimately show ?thesis
    by (cases m) (simp_all add: block_def time_states_append)
qed

lemma ready_upd [simp]:
  "ready (s\<lparr>fld := f\<rparr>) = ready s" "ready (s\<lparr>events := e\<rparr>) = ready s"
  "ready (s\<lparr>time_step := ts\<rparr>) = ready s"
  by (simp_all add: ready_def)

lemma TEMxFDTD_step_ready:
  assumes "ready s"
  shows "\<exists>s'. TEMxFDTD_step X s = Returned s' \<and>
    time_step s' = \<lparr>ts_n = ts_n (time_step s) + 5 + 5, ts_t = (ts_n (time_step s) + 5 + 5) * dt s\<rparr> \<and>
    time_states (added s s') =
      [\<lparr>ts_n = ts_n (time_step s) + 5, ts_t = (ts_n (time_step s) + 5) * dt s\<rparr>,
       \<lparr>ts_n = ts_n (time_step s) + 5 + 5, ts_t = (ts_n (time_step s) + 5 + 5) * dt s\<rparr>]"
proof -
  define s1 where "s1 = s\<lparr>fld := phase_fld X [Update E_y] s, events := events s @ block (Update E_y) s\<rparr>"
  define s2 where "s2 = tick (t_set (n_add 5 s1))"
  have 1: "call X (Update E_y) s = Returned s1"
    using call_stepping [OF assms, of "Update E_y" X] by (simp add: s1_def)
  have "ready s2" using assms by (simp add: s2_def s1_def tick_def emit_def t_set_def n_add_def)
  from call_stepping [OF this, of "Update H_z" X]
  have 2: "call X (Update H_z) s2 =
    Returned (s2\<lparr>fld := phase_fld X [Update H_z] s2, events := events s2 @ block (Update H_z) s2\<rparr>)"
    by simp
  show ?thesis
    unfolding TEMxFDTD_step_def
    by (simp add: 1 s2_def [symmetric] 2)
      (simp add: s2_def s1_def tick_def emit_def t_set_def n_add_def added_def
        time_states_append time_states_block)
qed

lemma outline_append: "outline (xs @ ys) = outline xs @ outline ys"
  by (induction xs rule: outline.induct) simp_all

lemma outline_block_Update: "outline (block (Update c) s) = [Begin (Update c), End (Update c)]"
proof -
  have "outline (map (\<lambda>mo. Invoke mo c p1 p2 h d1 d2) rs) = []" for p1 p2 h d1 d2 rs
    by (induction rs) simp_all
  then show ?thesis by (simp add: block_def invocations_def outline_append)
qed

lemma two_calls:
  assumes "ready s"
  shows "seq (call X (Update a) s) (\<lambda>s.
     seq (Returned (tick (t_set (n_add h s)))) (\<lambda>s.
     seq (call X (Update b) s) (\<lambda>s.
     Returned (tick (t_set (n_add h s)))))) =
    Returned (s\<lparr>fld := phase_fld X [Update b] (s\<lparr>fld := phase_fld X [Update a] s\<rparr>),
      time_step := \<lparr>ts_n = ts_n (time_step s) + h + h, ts_t = (ts_n (time_step s) + h + h) * dt s\<rparr>,
      events := events s @ block (Update a) s @
        [Time_state \<lparr>ts_n = ts_n (time_step s) + h, ts_t = (ts_n (time_step s) + h) * dt s\<rparr>] @
        block (Update b) s @
        [Time_state \<lparr>ts_n = ts_n (time_step s) + h + h, ts_t = (ts_n (time_step s) + h + h) * dt s\<rparr>]\<rparr>)"
proof -
  define s1 where "s1 = s\<lparr>fld := phase_fld X [Update a] s, events := events s @ block (Update a) s\<rparr>"
  define s2 where "s2 = tick (t_set (n_add h s1))"
  have 1: "call X (Update a) s = Returned s1"
    using call_stepping [OF assms, of "Update a" X] by (simp add: s1_def)
  have "ready s2" using assms by (simp add: s2_def s1_def tick_def emit_def t_set_def n_add_def)
  from call_stepping [OF this, of "Update b" X]
  have 2: "call X (Update b) s2 =
    Returned (s2\<lparr>fld := phase_fld X [Update b] s2, events := events s2 @ block (Update b) s2\<rparr>)"
    by simp
  have inv: "invocations b s2 = invocations b s"
    by (rule invocations_cong) (simp_all add: s2_def s1_def tick_def emit_def t_set_def n_add_def)
  have pass: "pass_result X b s2 = pass_result X b (s\<lparr>fld := phase_fld X [Update a] s\<rparr>)"
    by (rule pass_result_cong) (simp_all add: s2_def s1_def tick_def emit_def t_set_def n_add_def)
  have fld: "phase_fld X [Update b] s2 = phase_fld X [Update b] (s\<lparr>fld := phase_fld X [Update a] s\<rparr>)"
  proof
    fix c
    have "fld s2 c = fld (s\<lparr>fld := phase_fld X [Update a] s\<rparr>) c"
      by (simp add: s2_def s1_def tick_def emit_def t_set_def n_add_def)
    then show "phase_fld X [Update b] s2 c =
        phase_fld X [Update b] (s\<lparr>fld := phase_fld X [Update a] s\<rparr>) c"
      by (simp add: phase_fld_def pass)
  qed
  have blk: "block (Update b) s2 = block (Update b) s"
    by (simp add: block_def inv)
  show ?thesis
    by (simp add: 1 s2_def [symmetric] 2 fld blk)
      (simp add: s2_def s1_def tick_def emit_def t_set_def n_add_def)
qed
lemma time_states_blocks: "time_states (concat (map (\<lambda>m. block m s) ms)) = []"
  by (induction ms) (simp_all add: time_states_append time_states_block)

lemma FDTD_step_trace:
  assumes "ready s"
  shows "\<exists>s' tr. FDTD_step X sched1 sched2 s = Returned s' \<and> ready s' \<and>
    events s' = events s @ tr \<and> length (time_states tr) = 2 \<and>
    monitor (Electric, {}, {}) tr = Some (Electric, {}, {})"
proof -
  let ?trE = "concat (map (\<lambda>m. block m s) (pick_order sched1 E_threads))"
  let ?trH = "concat (map (\<lambda>m. block m (after_E X s)) (pick_order sched2 H_threads))"
  let ?tr = "?trE @ [Time_state (half_step s)] @ ?trH @ [Time_state (full_step s)]"
  have "monitor (Electric, {}, {}) ?tr = Some (Electric, {}, {})"
    by (simp add: monitor_append monitor_E_phase monitor_H_phase)
  moreover have "length (time_states ?tr) = 2"
    by (simp add: time_states_append time_states_blocks)
  ultimately show ?thesis
    using assms by (simp add: FDTD_step_ready [OF assms])
qed

lemma FDTD_steps_trace:
  "ready s \<Longrightarrow>
   \<exists>s' tr. FDTD_steps X scheds s = Returned s' \<and> ready s' \<and>
    events s' = events s @ tr \<and> length (time_states tr) = 2 * length scheds \<and>
    monitor (Electric, {}, {}) tr = Some (Electric, {}, {})"
proof (induction scheds arbitrary: s)
  case Nil
  then show ?case by simp
next
  case (Cons p scheds)
  obtain sched1 sched2 where p: "p = (sched1, sched2)" by (cases p)
  from FDTD_step_trace [OF Cons.prems, of X sched1 sched2]
  obtain s1 tr1 where 1: "FDTD_step X sched1 sched2 s = Returned s1" "ready s1"
    "events s1 = events s @ tr1" "length (time_states tr1) = 2"
    "monitor (Electric, {}, {}) tr1 = Some (Electric, {}, {})"
    by blast
  from Cons.IH [OF 1(2)]
  obtain s2 tr2 where 2: "FDTD_steps X scheds s1 = Returned s2" "ready s2"
    "events s2 = events s1 @ tr2" "length (time_states tr2) = 2 * length scheds"
    "monitor (Electric, {}, {}) tr2 = Some (Electric, {}, {})"
    by blast
  have "monitor (Electric, {}, {}) (tr1 @ tr2) = Some (Electric, {}, {})"
    by (simp add: monitor_append 1 2)
  moreover have "events s2 = events s @ (tr1 @ tr2)" by (simp add: 1 2)
  moreover have "length (time_states (tr1 @ tr2)) = 2 * length (p # scheds)"
    by (simp add: time_states_append 1 2)
  ultimately show ?case
    using 1(1) 2(1,2) unfolding p by (intro exI [of _ s2] exI [of _ "tr1 @ tr2"]) simp
qed
lemma filter_invokes_invocations:
  "filter (invokes c) (invocations c' s) = (if c' = c then invocations c s else [])"
proof -
  have "filter (invokes c) (map (\<lambda>mo. Invoke mo c' p1 p2 h d1 d2) rs) =
      (if c' = c then map (\<lambda>mo. Invoke mo c' p1 p2 h d1 d2) rs else [])" for p1 p2 h d1 d2 rs
    by (induction rs) simp_all
  then show ?thesis by (auto simp: invocations_def)
qed

lemma filter_invokes_exports: "filter (invokes c) (exports c' s) = []"
  by (cases c') simp_all

lemma filter_invokes_block:
  "filter (invokes c) (block m s) = (if m = Update c then invocations c s else [])"
  by (cases m) (auto simp: block_def filter_invokes_invocations filter_invokes_exports)

lemma filter_invokes_blocks:
  "distinct ms \<Longrightarrow>
   filter (invokes c) (concat (map (\<lambda>m. block m s) ms)) =
     (if Update c \<in> set ms then invocations c s else [])"
  by (induction ms) (auto simp: filter_invokes_block)

lemma filter_export_invocations: "filter is_export (invocations c s) = []"
proof -
  have "filter is_export (map (\<lambda>mo. Invoke mo c p1 p2 h d1 d2) rs) = []" for p1 p2 h d1 d2 rs
    by (induction rs) simp_all
  then show ?thesis by (simp add: invocations_def)
qed

lemma filter_export_exports: "filter is_export (exports c s) = exports c s"
  by (cases c) simp_all

lemma filter_export_block:
  "filter is_export (block m s) = (case m of Write c \<Rightarrow> exports c s | _ \<Rightarrow> [])"
  by (cases m) (simp_all add: block_def filter_export_invocations filter_export_exports)

lemma exports_other: "c \<noteq> E_x \<Longrightarrow> exports c s = []"
  by (cases c) simp_all

lemma filter_export_blocks:
  "distinct ms \<Longrightarrow>
   filter is_export (concat (map (\<lambda>m. block m s) ms)) =
     (if Write E_x \<in> set ms then exports E_x s else [])"
proof (induction ms)
  case Nil
  then show ?case by simp
next
  case (Cons m ms)
  show ?case
  proof (cases m)
    case (Write c)
    show ?thesis
    proof (cases "c = E_x")
      case True
      with Cons Write show ?thesis by (auto simp: filter_export_block)
    next
      case False
      with Cons Write show ?thesis by (auto simp: filter_export_block exports_other)
    qed
  qed (use Cons in \<open>auto simp: filter_export_block\<close>)
qed

lemma marks_in_blocks:
  "m \<in> set ms \<Longrightarrow>
   Begin m \<in> set (concat (map (\<lambda>m. block m s) ms)) \<and>
   End m \<in> set (concat (map (\<lambda>m. block m s) ms))"
  by (induction ms) (auto simp: block_def)

lemma in_E_threads:
  "(Update c \<in> set E_threads) = (phase_of c = Electric)"
  "(Write c \<in> set E_threads) = (phase_of c = Magnetic)"
  by (cases c; simp add: E_threads_def)+

lemma in_H_threads:
  "(Update c \<in> set H_threads) = (phase_of c = Magnetic)"
  "(Write c \<in> set H_threads) = (phase_of c = Electric)"
  by (cases c; simp add: H_threads_def)+

lemma distinct_threads: "distinct E_threads" "distinct H_threads"
  by (simp_all add: E_threads_def H_threads_def)
lemma phase_fld_other: "m \<noteq> Update c \<Longrightarrow> phase_fld X [m] s c = fld s c"
  by (simp add: phase_fld_def)

lemma two_calls_observed:
  assumes "ready s"
  shows "\<exists>s'. seq (call X (Update a) s) (\<lambda>s.
     seq (Returned (tick (t_set (n_add h s)))) (\<lambda>s.
     seq (call X (Update b) s) (\<lambda>s.
     Returned (tick (t_set (n_add h s)))))) = Returned s' \<and>
    time_step s' =
      \<lparr>ts_n = ts_n (time_step s) + h + h, ts_t = (ts_n (time_step s) + h + h) * dt s\<rparr> \<and>
    outline (added s s') =
      [Begin (Update a), End (Update a),
       Time_state \<lparr>ts_n = ts_n (time_step s) + h, ts_t = (ts_n (time_step s) + h) * dt s\<rparr>,
       Begin (Update b), End (Update b),
       Time_state \<lparr>ts_n = ts_n (time_step s) + h + h, ts_t = (ts_n (time_step s) + h + h) * dt s\<rparr>] \<and>
    (\<forall>c. c \<noteq> a \<longrightarrow> c \<noteq> b \<longrightarrow> fld s' c = fld s c)"
  unfolding two_calls [OF assms]
  by (simp add: added_def outline_append outline_block_Update phase_fld_other)

lemma time_states_outline: "time_states (outline evs) = time_states evs"
  by (induction evs rule: outline.induct) simp_all

lemma phase_ok_TEz: "phase_ok [Update E_x, Update E_y]"
  by (simp add: phase_ok_def)

lemma TEzFDTD_step_time:
  assumes "ready s"
  shows "\<exists>s'. TEzFDTD_step X sched s = Returned s' \<and>
    time_states (added s s') =
      [\<lparr>ts_n = ts_n (time_step s) + 1/2, ts_t = (ts_n (time_step s) + 1/2) * dt s\<rparr>,
       \<lparr>ts_n = ts_n (time_step s) + 1/2 + 1/2, ts_t = (ts_n (time_step s) + 1/2) * dt s + dt s\<rparr>]"
proof -
  define s1 where "s1 = s\<lparr>fld := phase_fld X [Update E_x, Update E_y] s,
    events := events s @ concat (map (\<lambda>m. block m s) (pick_order sched [Update E_x, Update E_y]))\<rparr>"
  define s2 where "s2 = tick (t_set (n_add (1/2) s1))"
  have 1: "fork_join X sched [Update E_x, Update E_y] s = Returned s1"
    unfolding s1_def by (rule fork_join_phase [OF phase_ok_TEz assms])
  have "ready s2" using assms by (simp add: s2_def s1_def tick_def emit_def t_set_def n_add_def)
  from call_stepping [OF this, of "Update H_z" X]
  have 2: "call X (Update H_z) s2 =
    Returned (s2\<lparr>fld := phase_fld X [Update H_z] s2, events := events s2 @ block (Update H_z) s2\<rparr>)"
    by simp
  show ?thesis
    unfolding TEzFDTD_step_def
    by (simp add: 1 s2_def [symmetric] 2)
      (simp add: s2_def s1_def tick_def emit_def t_set_def t_add_def n_add_def added_def
        time_states_append time_states_block time_states_blocks)
qed
lemma spec_boundary_eq: "spec_boundary c shp i = is_boundary c shp i"
  by (cases c; cases shp; cases i) (auto simp: spec_boundary_def)

lemma set_ndindex: "set (ndindex (s0, s1, s2)) = {(i, j, k). i < s0 \<and> j < s1 \<and> k < s2}"
  by (force simp: ndindex_def)

lemma build_cong:
  assumes "store s' = store s" "geom_tree s' = geom_tree s" "space s' = space s" "fld s' c = fld s c"
  shows "classify X s' c = classify X s c" "gap X s' c = gap X s c"
    "built_rule X s' c = built_rule X s c" "visited X s' c = visited X s c"
    "has_gap X s' c = has_gap X s c"
proof -
  show 1: "classify X s' c = classify X s c"
    using assms by (auto simp: classify_def)
  show 2: "gap X s' c = gap X s c"
    using assms 1 by (auto simp: gap_def)
  show "built_rule X s' c = built_rule X s c"
    using assms 1 by (auto simp: built_rule_def)
  show "visited X s' c = visited X s c"
    using assms 2 by (simp add: visited_def)
  show "has_gap X s' c = has_gap X s c"
    using assms 2 by (simp add: has_gap_def)
qed

lemma init_material_cells_char:
  assumes "store s0 = store s" "geom_tree s0 = geom_tree s" "space s0 = space s"
    and "\<forall>i \<in> set is. in_bounds (shape (material s0 c)) i"
  shows "init_material_cells X c (shape (fld s c)) is s0 =
    (if list_ex (gap X s c) is then Raised ClassificationError else Returned)
      (s0\<lparr>material := (material s0)(c := (material s0 c)\<lparr>cells :=
          (\<lambda>i. if i \<in> set (takeWhile (\<lambda>i. \<not> gap X s c i) is) then Some (built_rule X s c i)
               else cells (material s0 c) i)\<rparr>)\<rparr>)"
  using assms
proof (induction "is" arbitrary: s0)
  case Nil
  then show ?case by simp
next
  case (Cons i "is")
  have triv: "s0\<lparr>material := (material s0)(c := (material s0 c)\<lparr>cells := \<lambda>i. cells (material s0 c) i\<rparr>)\<rparr> = s0"
    by simp
  show ?case
  proof (cases "gap X s c i")
    case True
    then show ?thesis
      using Cons.prems by (simp add: gap_def classify_def triv)
  next
    case False
    define r where "r = built_rule X s c i"
    define s1 where "s1 = set_material c i r s0"
    have s1: "store s1 = store s" "geom_tree s1 = geom_tree s" "space s1 = space s"
      "\<forall>i \<in> set is. in_bounds (shape (material s1 c)) i"
      using Cons.prems by (simp_all add: s1_def set_material_def setitem_def)
    have step: "init_material_cells X c (shape (fld s c)) (i # is) s0 =
        init_material_cells X c (shape (fld s c)) is s1"
      using False Cons.prems
      by (auto simp: gap_def classify_def s1_def r_def built_rule_def split: option.splits)
    let ?G1 = "(material s1)(c := (material s1 c)\<lparr>cells := (\<lambda>j. if j \<in> set (takeWhile (\<lambda>i. \<not> gap X s c i) is)
          then Some (built_rule X s c j) else cells (material s1 c) j)\<rparr>)"
    let ?G0 = "(material s0)(c := (material s0 c)\<lparr>cells := (\<lambda>j. if j \<in> set (takeWhile (\<lambda>i. \<not> gap X s c i) (i # is))
          then Some (built_rule X s c j) else cells (material s0 c) j)\<rparr>)"
    have grid: "?G1 = ?G0"
      using False by (auto simp: s1_def set_material_def setitem_def r_def fun_eq_iff)
    have eq: "s1\<lparr>material := M\<rparr> = s0\<lparr>material := M\<rparr>" for M
      by (simp add: s1_def set_material_def)
    have ex: "list_ex (gap X s c) (i # is) = list_ex (gap X s c) is"
      using False by simp
    have "init_material_cells X c (shape (fld s c)) (i # is) s0 =
        (if list_ex (gap X s c) is then Raised ClassificationError else Returned) (s1\<lparr>material := ?G1\<rparr>)"
      by (simp only: step Cons.IH [OF s1])
    also have "s1\<lparr>material := ?G1\<rparr> = s0\<lparr>material := ?G0\<rparr>"
      by (simp only: eq grid)
    finally show ?thesis by (simp only: ex)
  qed
qed

lemma in_bounds_ndindex: "i \<in> set (ndindex shp) \<Longrightarrow> in_bounds shp i"
  by (cases shp; cases i) (simp add: set_ndindex)

lemma target_Init_material:
  assumes "\<not> lock s c" "shape (material s c) = shape (fld s c)"
  shows "target X (Init_material c) s =
    (if has_gap X s c then Raised ClassificationError else Returned)
      (s\<lparr>lock := (lock s)(c := has_gap X s c), material := (material s)(c := grid_after X s c)\<rparr>)"
proof -
  have idem: "(lock s)(c := False) = lock s"
    using assms by (simp add: fun_upd_idem)
  have "init_material_component X c s =
    (if has_gap X s c then Raised ClassificationError else Returned)
      (s\<lparr>lock := (lock s)(c := has_gap X s c), material := (material s)(c := grid_after X s c)\<rparr>)"
    using assms
    by (simp add: init_material_component_def acquire_def release_def in_bounds_ndindex
        init_material_cells_char [of _ s] has_gap_def grid_after_def visited_def idem cong: if_cong)
  then show ?thesis
    by (cases c)
      (simp_all add: init_material_ex_def init_material_ey_def init_material_ez_def
        init_material_hx_def init_material_hy_def init_material_hz_def)
qed
lemma threads_of_components:
  "init_material_threads cls = map Init_material (components_of cls)"
  "init_source_threads cls = map Init_source (components_of cls)"
  by (cases cls; simp)+

lemma distinct_components_of: "distinct (components_of cls)"
  by (cases cls) simp_all

lemma pick_order_map: "pick_order sched (map f xs) = map f (pick_order sched xs)"
proof (induction sched xs rule: pick_order.induct)
  case (3 c sched t ths)
  define i where "i = c mod length (t # ths)"
  have i: "i < length (t # ths)" by (simp add: i_def)
  have "pick_order (c # sched) (map f (t # ths)) =
      (let i = c mod length (map f (t # ths)) in
       map f (t # ths) ! i #
       pick_order sched (take i (map f (t # ths)) @ drop (Suc i) (map f (t # ths))))"
    by simp
  also have "\<dots> = f ((t # ths) ! i) #
      pick_order sched (map f (take i (t # ths) @ drop (Suc i) (t # ths)))"
    by (simp only: Let_def length_map i_def [symmetric] nth_map [OF i] take_map drop_map map_append)
  also have "\<dots> = map f (pick_order (c # sched) (t # ths))"
    using 3 [OF i_def] unfolding i_def by (simp add: Let_def)
  finally show ?case .
qed simp_all

lemma grid_after_cong:
  assumes "store s' = store s" "geom_tree s' = geom_tree s" "space s' = space s" "fld s' c = fld s c"
    and "material s' c = material s c"
  shows "grid_after X s' c = grid_after X s c"
  using assms build_cong [OF assms(1-4), of X] by (simp add: grid_after_def cong: if_cong)

lemma run_thread_Init_material:
  assumes "buildable s c"
  shows "run_thread X (Init_material c) s =
    Some (s\<lparr>lock := (lock s)(c := has_gap X s c), material := (material s)(c := grid_after X s c),
            events := events s @ init_block X s (Init_material c)\<rparr>)"
proof -
  let ?s0 = "emit (Begin (Init_material c)) s"
  have b: "\<not> lock ?s0 c" "shape (material ?s0 c) = shape (fld ?s0 c)"
    using assms by (simp_all add: buildable_def emit_def)
  have g: "has_gap X ?s0 c = has_gap X s c"
    by (rule build_cong) (simp_all add: emit_def)
  have a: "grid_after X ?s0 c = grid_after X s c"
    by (rule grid_after_cong) (simp_all add: emit_def)
  show ?thesis
    unfolding run_thread_def call_def target_Init_material [OF b] g a
    by (simp add: emit_def)
qed

lemma run_threads_Init_material:
  "distinct cs \<Longrightarrow> \<forall>c \<in> set cs. buildable s c \<Longrightarrow>
   run_threads X (map Init_material cs) s =
     Some (s\<lparr>lock := (\<lambda>c. if c \<in> set cs then has_gap X s c else lock s c),
             material := (\<lambda>c. if c \<in> set cs then grid_after X s c else material s c),
             events := events s @ concat (map (\<lambda>c. init_block X s (Init_material c)) cs)\<rparr>)"
proof (induction cs arbitrary: s)
  case Nil
  then show ?case by simp
next
  case (Cons c cs)
  define s1 where "s1 = s\<lparr>lock := (lock s)(c := has_gap X s c),
    material := (material s)(c := grid_after X s c),
    events := events s @ init_block X s (Init_material c)\<rparr>"
  have run: "run_thread X (Init_material c) s = Some s1"
    unfolding s1_def by (rule run_thread_Init_material) (use Cons.prems in simp)
  have notin: "c \<notin> set cs" and d: "distinct cs" using Cons.prems by simp_all
  have b1: "\<forall>c' \<in> set cs. buildable s1 c'"
    using Cons.prems notin by (auto simp: buildable_def s1_def)
  note IH = Cons.IH [OF d b1]
  have gap: "has_gap X s1 c' = has_gap X s c'" for c'
    by (rule build_cong) (simp_all add: s1_def)
  have grid: "grid_after X s1 c' = grid_after X s c'" if "c' \<noteq> c" for c'
    by (rule grid_after_cong) (use that in \<open>simp_all add: s1_def\<close>)
  have blocks: "init_block X s1 (Init_material c') = init_block X s (Init_material c')" for c'
    by (simp add: gap)
  have locks: "(\<lambda>c'. if c' \<in> set cs then has_gap X s1 c' else lock s1 c') =
      (\<lambda>c'. if c' \<in> set (c # cs) then has_gap X s c' else lock s c')"
  proof
    fix c'
    have L: "lock s1 = (\<lambda>c'. if c' = c then has_gap X s c else lock s c')"
      by (simp add: s1_def fun_eq_iff)
    show "(if c' \<in> set cs then has_gap X s1 c' else lock s1 c') =
        (if c' \<in> set (c # cs) then has_gap X s c' else lock s c')"
      by (simp add: gap L)
  qed
  have grids: "(\<lambda>c'. if c' \<in> set cs then grid_after X s1 c' else material s1 c') =
      (\<lambda>c'. if c' \<in> set (c # cs) then grid_after X s c' else material s c')"
  proof
    fix c'
    have M: "material s1 = (\<lambda>c'. if c' = c then grid_after X s c else material s c')"
      by (simp add: s1_def fun_eq_iff)
    show "(if c' \<in> set cs then grid_after X s1 c' else material s1 c') =
        (if c' \<in> set (c # cs) then grid_after X s c' else material s c')"
      using notin grid [of c'] by (auto simp: M)
  qed
  note IH' = IH [unfolded locks grids blocks]
  show ?case
    by (simp add: run IH' del: init_block.simps) (simp add: s1_def)
qed

lemma init_material_buildable:
  assumes "\<forall>c \<in> set (components_of cls). buildable s c"
  shows "init_material cls X sched s =
    Returned (s\<lparr>lock := (\<lambda>c. if c \<in> set (components_of cls) then has_gap X s c else lock s c),
      material := (\<lambda>c. if c \<in> set (components_of cls) then grid_after X s c else material s c),
      events := events s @
        concat (map (\<lambda>c. init_block X s (Init_material c)) (pick_order sched (components_of cls)))\<rparr>)"
proof -
  have "distinct (pick_order sched (components_of cls))"
    by (simp add: distinct_pick_order distinct_components_of)
  moreover have "\<forall>c \<in> set (pick_order sched (components_of cls)). buildable s c"
    using assms by (simp add: set_pick_order)
  ultimately show ?thesis
    unfolding init_material_def fork_join_def threads_of_components pick_order_map
    by (simp add: run_threads_Init_material set_pick_order)
qed

lemma init_source_loop_char:
  "init_source_loop X c as s =
     s\<lparr>material := (material s)(c :=
         foldl (\<lambda>m a. set_pointwise_source X (src_at (store s) a) c m (space s)) (material s c) as)\<rparr>"
  by (induction as arbitrary: s) simp_all

lemma run_thread_Init_source:
  "run_thread X (Init_source c) s =
    Some (s\<lparr>material := (material s)(c := injected X s c (list_at (store s) (src_list s))),
            events := events s @ init_block X s (Init_source c)\<rparr>)"
proof -
  have "target X (Init_source c) s0 =
      Returned (s0\<lparr>material := (material s0)(c := injected X s0 c (list_at (store s0) (src_list s0)))\<rparr>)"
    for s0 :: "('a, 'b, 'c) fdtd"
    by (cases c)
      (simp_all add: init_source_ex_def init_source_ey_def init_source_ez_def init_source_hx_def
        init_source_hy_def init_source_hz_def init_source_component_def init_source_loop_char
        injected_def)
  then show ?thesis
    by (simp add: run_thread_def call_def emit_def injected_def)
qed

lemma injected_cong:
  assumes "store s' = store s" "space s' = space s" "material s' c = material s c"
  shows "injected X s' c as = injected X s c as"
  using assms by (simp add: injected_def)

lemma run_threads_Init_source:
  "distinct cs \<Longrightarrow>
   run_threads X (map Init_source cs) s =
     Some (s\<lparr>material := (\<lambda>c. if c \<in> set cs then injected X s c (list_at (store s) (src_list s))
                               else material s c),
             events := events s @ concat (map (\<lambda>c. init_block X s (Init_source c)) cs)\<rparr>)"
proof (induction cs arbitrary: s)
  case Nil
  then show ?case by simp
next
  case (Cons c cs)
  define s1 where "s1 = s\<lparr>material := (material s)(c := injected X s c (list_at (store s) (src_list s))),
    events := events s @ init_block X s (Init_source c)\<rparr>"
  have run: "run_thread X (Init_source c) s = Some s1"
    unfolding s1_def by (rule run_thread_Init_source)
  have notin: "c \<notin> set cs" and d: "distinct cs" using Cons.prems by simp_all
  note IH = Cons.IH [OF d, of s1]
  have inj: "injected X s1 c' as = injected X s c' as" if "c' \<noteq> c" for c' as
    by (rule injected_cong) (use that in \<open>simp_all add: s1_def\<close>)
  have grids: "(\<lambda>c'. if c' \<in> set cs then injected X s1 c' (list_at (store s1) (src_list s1)) else material s1 c') =
      (\<lambda>c'. if c' \<in> set (c # cs) then injected X s c' (list_at (store s) (src_list s)) else material s c')"
  proof
    fix c'
    have "store s1 = store s" "src_list s1 = src_list s" by (simp_all add: s1_def)
    then show "(if c' \<in> set cs then injected X s1 c' (list_at (store s1) (src_list s1)) else material s1 c') =
      (if c' \<in> set (c # cs) then injected X s c' (list_at (store s) (src_list s)) else material s c')"
      using notin inj [of c'] by (auto simp: s1_def)
  qed
  show ?case
    by (simp add: run IH grids) (simp add: s1_def)
qed

lemma init_source_char:
  "init_source cls X sched s =
    Returned (s\<lparr>material := (\<lambda>c. if c \<in> set (components_of cls)
                                  then injected X s c (list_at (store s) (src_list s))
                                  else material s c),
      events := events s @
        concat (map (\<lambda>c. init_block X s (Init_source c)) (pick_order sched (components_of cls)))\<rparr>)"
proof -
  have "distinct (pick_order sched (components_of cls))"
    by (simp add: distinct_pick_order distinct_components_of)
  then show ?thesis
    unfolding init_source_def fork_join_def threads_of_components pick_order_map
    by (simp add: run_threads_Init_source set_pick_order)
qed
lemma in_components_of_FDTD: "c \<in> set (components_of FDTD)"
  by (cases c) simp_all

lemma visited_complete: "\<not> has_gap X s c \<Longrightarrow> visited X s c = ndindex (shape (fld s c))"
  by (simp add: has_gap_def visited_def list_ex_iff)

lemma call_Update_locked: "lock s c \<Longrightarrow> call X (Update c) s = Blocked"
  by (cases c)
    (simp_all add: call_def emit_def update_ex_def update_ey_def update_ez_def update_hx_def
      update_hy_def update_hz_def update_pass_def acquire_def)

lemma init_block_in_blocks:
  "c \<in> set cs \<Longrightarrow>
   set (init_block X s (Init_material c)) \<subseteq>
     set (concat (map (\<lambda>c. init_block X s (Init_material c)) cs))"
  by (induction cs) auto

lemma buildable_blank: "buildable (blank_engine h) c"
  by (simp add: buildable_def blank_engine_def)

lemma classify_blank:
  "classify demo_externals (blank_engine h) c (i, j, k) =
     (if of_nat i \<le> geom_at h 3 then Some (geom_at h 3) else None)"
  by (simp add: classify_def blank_engine_def demo_externals_def demo_space_def)

lemma gap_blank:
  "gap demo_externals (blank_engine h) c (i, j, k) =
     (\<not> is_boundary c (2, 2, 2) (i, j, k) \<and> \<not> of_nat i \<le> geom_at h 3)"
  by (simp add: gap_def classify_blank) (simp add: blank_engine_def)

lemma shape_blank: "shape (fld (blank_engine h) c) = (2, 2, 2)"
  by (simp add: blank_engine_def)

lemma no_gap_demo: "\<not> has_gap demo_externals (blank_engine (store demo_engine)) c"
  by (simp add: has_gap_def shape_blank ndindex_222 gap_blank) (simp add: demo_engine_def demo_store_def)

lemma visited_gap_E_x:
  "visited demo_externals (blank_engine gap_store) E_x = [(0, 0, 0), (0, 0, 1), (0, 1, 0), (0, 1, 1)]"
  by (simp add: visited_def shape_blank ndindex_222 gap_blank) (simp add: gap_store_def)

lemma has_gap_E_x: "has_gap demo_externals (blank_engine gap_store) E_x"
  by (simp add: has_gap_def shape_blank ndindex_222 gap_blank) (simp add: gap_store_def)

lemma store_independentI:
  assumes "\<And>s. reads_agree s h \<Longrightarrow> f (with_store h s) = map_outcome (with_store h) (f s)"
    and "\<And>s. reads_agree s h \<Longrightarrow> outcome_all (frame s) (f s)"
  shows "store_independent h f"
  using assms by (simp add: store_independent_def)

lemma store_independentD:
  assumes "store_independent h f" "reads_agree s h"
  shows "f (with_store h s) = map_outcome (with_store h) (f s)" "outcome_all (frame s) (f s)"
  using assms by (simp_all add: store_independent_def)

lemma reads_agree_frame: "frame s s' \<Longrightarrow> reads_agree s h \<Longrightarrow> reads_agree s' h"
  by (simp add: frame_def reads_agree_def)

lemma frame_refl: "frame s s"
  by (simp add: frame_def)

lemma frame_trans: "frame s s1 \<Longrightarrow> frame s1 s2 \<Longrightarrow> frame s s2"
  by (simp add: frame_def)

lemma store_independent_seq:
  fixes h :: "('g, 's) store" and f g :: "('g, 'p, 's) fdtd \<Rightarrow> ('g, 'p, 's) fdtd outcome"
  assumes f: "store_independent h f" and g: "store_independent h g"
  shows "store_independent h (\<lambda>s. seq (f s) g)"
proof (rule store_independentI)
  fix s :: "('g, 'p, 's) fdtd"
  assume a: "reads_agree s h"
  note fs = store_independentD [OF f a]
  show "seq (f (with_store h s)) g = map_outcome (with_store h) (seq (f s) g)"
  proof (cases "f s")
    case (Returned s1)
    with fs have "reads_agree s1 h" by (simp add: reads_agree_frame [OF _ a])
    from store_independentD(1) [OF g this] show ?thesis by (simp add: fs(1) Returned)
  qed (simp_all add: fs(1))
  show "outcome_all (frame s) (seq (f s) g)"
  proof (cases "f s")
    case (Returned s1)
    with fs have 1: "frame s s1" by simp
    then have "reads_agree s1 h" by (rule reads_agree_frame [OF _ a])
    from store_independentD(2) [OF g this] 1 show ?thesis
      by (cases "g s1") (auto simp: Returned intro: frame_trans)
  qed (use fs in simp_all)
qed

lemma store_independent_pure:
  assumes "\<And>s. p (with_store h s) = with_store h (p s)" "\<And>s. frame s (p s)"
  shows "store_independent h (\<lambda>s. Returned (p s))"
  using assms by (intro store_independentI) simp_all

lemma store_independent_time:
  "store_independent h (\<lambda>s. Returned (tick (t_set (n_add k s))))"
  "store_independent h (\<lambda>s. Returned (tick (t_add (n_add k s))))"
  by (rule store_independent_pure;
      simp add: with_store_def frame_def tick_def emit_def t_set_def t_add_def n_add_def)+

lemma with_store_sel:
  "lock (with_store h s) = lock s" "material (with_store h s) = material s"
  "fld (with_store h s) = fld s" "space (with_store h s) = space s"
  "geom_tree (with_store h s) = geom_tree s" "src_list (with_store h s) = src_list s"
  "geom_list (with_store h s) = geom_list s" "events (with_store h s) = events s"
  "time_step (with_store h s) = time_step s" "store (with_store h s) = h"
  by (simp_all add: with_store_def)

lemma for_each_rule_store_independent:
  assumes "\<And>mo s. body mo (with_store h s) = with_store h (body mo s)"
    and "\<And>mo s. frame s (body mo s)"
  shows "for_each_rule body rs (with_store h s) = map_outcome (with_store h) (for_each_rule body rs s) \<and>
    outcome_all (frame s) (for_each_rule body rs s)"
proof (induction rs arbitrary: s)
  case Nil
  show ?case by (simp add: frame_refl)
next
  case (Cons r rs)
  show ?case
  proof (cases r)
    case None
    then show ?thesis by (simp add: frame_refl)
  next
    case (Some mo)
    from Cons [of "body mo s"] assms(2) [of s mo] show ?thesis
      by (cases "for_each_rule body rs (body mo s)") (auto simp: Some assms(1) intro: frame_trans)
  qed
qed

lemma acquire_store_independent: "store_independent h (acquire c)"
  by (rule store_independentI) (simp_all add: acquire_def with_store_def frame_def)

lemma release_store_independent: "store_independent h (release c)"
  by (rule store_independentI) (simp_all add: release_def with_store_def frame_def)

lemma update_pass_store_independent:
  fixes h :: "('g, 's) store" and body :: "'p rule \<Rightarrow> ('g, 'p, 's) fdtd \<Rightarrow> ('g, 'p, 's) fdtd"
  assumes "\<And>mo s. body mo (with_store h s) = with_store h (body mo s)"
    and "\<And>mo s. frame s (body mo s)"
  shows "store_independent h (update_pass c body)"
proof -
  have "store_independent h (\<lambda>s. for_each_rule body (flat (material s c)) s)"
    using for_each_rule_store_independent [of body h, OF assms]
    by (intro store_independentI) (simp_all add: with_store_sel)
  then have "store_independent h
      (\<lambda>s. seq (for_each_rule body (flat (material s c)) s) (release c))"
    by (rule store_independent_seq [OF _ release_store_independent])
  from store_independent_seq [OF acquire_store_independent this]
  show ?thesis by (simp add: update_pass_def [abs_def])
qed

lemma invoke_store:
  "invoke X mo own p1 p2 (dt (with_store h s)) (d1 (with_store h s)) (d2 (with_store h s)) (with_store h s) =
     with_store h (invoke X mo own p1 p2 (dt s) (d1 (with_store h s)) (d2 (with_store h s)) s)"
  "frame s (invoke X mo own p1 p2 k e1 e2 s)"
  by (simp_all add: invoke_def with_store_def frame_def)

lemma widths_store [simp]:
  "dx (with_store h s) = dx s" "dy (with_store h s) = dy s" "dz (with_store h s) = dz s"
  "dt (with_store h s) = dt s"
  by (simp_all add: with_store_def)

lemma target_Update_store_independent: "store_independent h (target X (Update c))"
  by (cases c)
    (simp_all add: update_ex_def update_ey_def update_ez_def update_hx_def update_hy_def
      update_hz_def update_pass_store_independent invoke_def with_store_def frame_def)

lemma target_Write_store_independent: "store_independent h (target X (Write c))"
  unfolding target_Write [abs_def]
  by (rule store_independent_pure; cases c; simp add: with_store_def frame_def)

lemma init_material_cells_store:
  fixes h :: "('g, 's) store" and s :: "('g, 'p, 's) fdtd"
  assumes "map (geom_at h) (geom_tree s) = map (geom_at (store s)) (geom_tree s)"
  shows "init_material_cells X c shp js (with_store h s) =
      map_outcome (with_store h) (init_material_cells X c shp js s) \<and>
    outcome_all (frame s) (init_material_cells X c shp js s)"
  using assms
proof (induction js arbitrary: s)
  case Nil
  show ?case by (simp add: frame_refl)
next
  case (Cons i js)
  have sm: "set_material c i r (with_store h s) = with_store h (set_material c i r s)" for r
    by (simp add: set_material_def with_store_def)
  have fr: "frame s (set_material c i r s)" for r
    by (simp add: set_material_def frame_def)
  have ag: "map (geom_at h) (geom_tree (set_material c i r s)) =
      map (geom_at (store (set_material c i r s))) (geom_tree (set_material c i r s))" for r
    using Cons.prems by (simp add: set_material_def)
  have step: "init_material_cells X c shp js (with_store h (set_material c i r s)) =
      map_outcome (with_store h) (init_material_cells X c shp js (set_material c i r s)) \<and>
    outcome_all (frame s) (init_material_cells X c shp js (set_material c i r s))" for r
    using Cons.IH [OF ag, of r] fr [of r]
    by (cases "init_material_cells X c shp js (set_material c i r s)")
      (auto intro: frame_trans)
  show ?case
    by (simp add: with_store_sel sm step Cons.prems frame_refl Let_def split: option.split)
qed

lemma init_material_cells_reads:
  assumes "reads_agree s h"
  shows "init_material_cells X c shp js (with_store h s) =
      map_outcome (with_store h) (init_material_cells X c shp js s)"
    and "outcome_all (frame s) (init_material_cells X c shp js s)"
  using init_material_cells_store [of h s X c shp js] assms
  by (simp_all only: reads_agree_def)

lemma init_material_component_store_independent:
  "store_independent h (init_material_component X c)"
proof -
  have "store_independent h
      (\<lambda>s. init_material_cells X c (shape (fld s c)) (ndindex (shape (fld s c))) s)"
    by (intro store_independentI)
      (simp_all add: with_store_sel init_material_cells_reads)
  then have "store_independent h
      (\<lambda>s. seq (init_material_cells X c (shape (fld s c)) (ndindex (shape (fld s c))) s)
         (release c))"
    by (rule store_independent_seq [OF _ release_store_independent])
  from store_independent_seq [OF acquire_store_independent this]
  show ?thesis by (simp add: init_material_component_def [abs_def])
qed

lemma init_source_loop_store:
  fixes h :: "('g, 's) store" and s :: "('g, 'p, 's) fdtd"
  assumes "map (src_at h) as = map (src_at (store s)) as"
  shows "init_source_loop X c as (with_store h s) = with_store h (init_source_loop X c as s)"
proof -
  have "foldl (\<lambda>m a. set_pointwise_source X (src_at h a) c m (space s)) (material s c) as =
      foldl (\<lambda>m a. set_pointwise_source X (src_at (store s) a) c m (space s)) (material s c) as"
    by (rule foldl_cong) (use assms in auto)
  then show ?thesis by (simp add: init_source_loop_char with_store_def)
qed

lemma init_source_component_store_independent:
  fixes h :: "('g, 's) store" and X :: "('g, 'p, 's) externals"
  shows "store_independent h (init_source_component X c)"
proof (rule store_independentI)
  fix s :: "('g, 'p, 's) fdtd"
  assume a: "reads_agree s h"
  then have l: "list_at h (src_list s) = list_at (store s) (src_list s)"
    and m: "map (src_at h) (list_at (store s) (src_list s)) =
        map (src_at (store s)) (list_at (store s) (src_list s))"
    by (simp_all only: reads_agree_def)
  show "init_source_component X c (with_store h s) =
      map_outcome (with_store h) (init_source_component X c s)"
    by (simp add: init_source_component_def with_store_sel l init_source_loop_store [OF m])
  show "outcome_all (frame s) (init_source_component X c s)"
    by (simp add: init_source_component_def init_source_loop_char frame_def)
qed

lemma target_Init_material_store_independent:
  "store_independent h (target X (Init_material c))"
  by (cases c)
    (simp_all add: init_material_ex_def init_material_ey_def init_material_ez_def
      init_material_hx_def init_material_hy_def init_material_hz_def
      init_material_component_store_independent)

lemma target_Init_source_store_independent:
  "store_independent h (target X (Init_source c))"
  by (cases c)
    (simp_all add: init_source_ex_def init_source_ey_def init_source_ez_def
      init_source_hx_def init_source_hy_def init_source_hz_def
      init_source_component_store_independent)

lemma target_store_independent: "store_independent h (target X m)"
  by (cases m)
    (simp_all only: target_Init_material_store_independent target_Init_source_store_independent
      target_Update_store_independent target_Write_store_independent)

lemma emit_store: "emit ev (with_store h s) = with_store h (emit ev s)"
  by (simp add: emit_def with_store_def)

lemma frame_emit: "frame s (emit ev s)" "frame (emit ev s) s' \<Longrightarrow> frame s s'"
  "frame s s' \<Longrightarrow> frame s (emit ev s')"
  by (simp_all add: emit_def frame_def)

lemma reads_agree_emit: "reads_agree (emit ev s) h = reads_agree s h"
  by (simp add: emit_def reads_agree_def)

lemma call_store_independent:
  fixes h :: "('g, 's) store" and X :: "('g, 'p, 's) externals"
  shows "store_independent h (call X m)"
proof (rule store_independentI)
  fix s :: "('g, 'p, 's) fdtd"
  assume "reads_agree s h"
  then have a: "reads_agree (emit (Begin m) s) h" by (simp add: reads_agree_emit)
  note t = store_independentD [OF target_store_independent a, of X m]
  show "call X m (with_store h s) = map_outcome (with_store h) (call X m s)"
    by (cases "target X m (emit (Begin m) s)") (simp_all add: call_def emit_store t(1))
  show "outcome_all (frame s) (call X m s)"
    using t(2) by (cases "target X m (emit (Begin m) s)") (auto simp: call_def intro: frame_emit)
qed

lemma run_threads_store:
  fixes h :: "('g, 's) store" and s :: "('g, 'p, 's) fdtd"
  assumes "reads_agree s h"
  shows "run_threads X ms (with_store h s) = map_option (with_store h) (run_threads X ms s) \<and>
    (\<forall>s'. run_threads X ms s = Some s' \<longrightarrow> frame s s')"
  using assms
proof (induction ms arbitrary: s)
  case Nil
  show ?case by (simp add: frame_refl)
next
  case (Cons m ms)
  note c = store_independentD [OF call_store_independent Cons.prems, of X m]
  show ?case
  proof (cases "call X m s")
    case (Returned s1)
    with c have f: "frame s s1" by simp
    from Cons.IH [OF reads_agree_frame [OF f Cons.prems]] f show ?thesis
      by (auto simp: run_thread_def c(1) Returned intro: frame_trans)
  next
    case (Raised e s1)
    with c have f: "frame s s1" by simp
    from Cons.IH [OF reads_agree_frame [OF f Cons.prems]] f show ?thesis
      by (auto simp: run_thread_def c(1) Raised intro: frame_trans)
  next
    case Blocked
    then show ?thesis by (simp add: run_thread_def c(1))
  qed
qed

lemma fork_join_store_independent:
  fixes h :: "('g, 's) store" and X :: "('g, 'p, 's) externals"
  shows "store_independent h (fork_join X sched ths)"
proof (rule store_independentI)
  fix s :: "('g, 'p, 's) fdtd"
  assume a: "reads_agree s h"
  note r = run_threads_store [OF a, of X "pick_order sched ths"]
  show "fork_join X sched ths (with_store h s) = map_outcome (with_store h) (fork_join X sched ths s)"
    by (cases "run_threads X (pick_order sched ths) s") (simp_all add: fork_join_def r)
  show "outcome_all (frame s) (fork_join X sched ths s)"
    using r by (cases "run_threads X (pick_order sched ths) s") (simp_all add: fork_join_def)
qed

lemma step_store_independent: "store_independent h (step cls X sched1 sched2)"
  by (cases cls;
      simp only: step.simps FDTD_step_def [abs_def] TExFDTD_step_def [abs_def]
        TEyFDTD_step_def [abs_def] TEzFDTD_step_def [abs_def] TMxFDTD_step_def [abs_def]
        TMyFDTD_step_def [abs_def] TMzFDTD_step_def [abs_def] TEMxFDTD_step_def [abs_def]
        TEMyFDTD_step_def [abs_def] TEMzFDTD_step_def [abs_def];
      intro store_independent_seq fork_join_store_independent call_store_independent
        store_independent_time)

lemma init_material_store_independent: "store_independent h (init_material cls X sched)"
  by (simp add: init_material_def [abs_def] fork_join_store_independent)

lemma init_source_store_independent: "store_independent h (init_source cls X sched)"
  by (simp add: init_source_def [abs_def] fork_join_store_independent)

lemma steps_store_independent:
  fixes h :: "('g, 's) store" and X :: "('g, 'p, 's) externals"
  shows "store_independent h (steps cls X scheds)"
proof (induction scheds)
  case Nil
  have "store_independent h (\<lambda>s :: ('g, 'p, 's) fdtd. Returned s)"
    by (rule store_independentI) (simp_all add: frame_refl)
  then show ?case by (simp add: steps.simps(1) [abs_def])
next
  case (Cons a scheds)
  obtain sched1 sched2 where a: "a = (sched1, sched2)" by (cases a)
  have "steps cls X (a # scheds) = (\<lambda>s. seq (step cls X sched1 sched2 s) (steps cls X scheds))"
    by (rule ext) (simp add: a)
  then show ?case
    by (simp only: store_independent_seq [OF step_store_independent Cons])
qed

lemma reads_agree_refl: "reads_agree s (store s)"
  by (simp add: reads_agree_def)

lemma deepcopy_elems_fresh:
  assumes "deepcopy_elems obj n memo as = (obj', n', bs)"
    and "\<forall>(a, b) \<in> set memo. base \<le> b \<and> b < n" and "base \<le> n"
  shows "n \<le> n' \<and> (\<forall>b \<in> set bs. base \<le> b \<and> b < n')"
  using assms
proof (induction as arbitrary: obj n memo bs)
  case Nil
  then show ?case by simp
next
  case (Cons a as)
  show ?case
  proof (cases "map_of memo a")
    case None
    obtain bs1 where r: "deepcopy_elems (obj(n := obj a)) (Suc n) ((a, n) # memo) as = (obj', n', bs1)"
      and bs: "bs = n # bs1"
      using Cons.prems(1) None by (auto split: prod.splits)
    have m: "\<forall>(a, b) \<in> set ((a, n) # memo). base \<le> b \<and> b < Suc n"
      using Cons.prems(2, 3) by auto
    from Cons.IH [OF r m] Cons.prems(3) show ?thesis by (auto simp: bs)
  next
    case (Some b)
    obtain bs1 where r: "deepcopy_elems obj n memo as = (obj', n', bs1)" and bs: "bs = b # bs1"
      using Cons.prems(1) Some by (auto split: prod.splits)
    from map_of_SomeD [OF Some] Cons.prems(2) have b: "base \<le> b \<and> b < n" by auto
    from Cons.IH [OF r Cons.prems(2, 3)] b show ?thesis by (auto simp: bs)
  qed
qed

lemma init_geom_objs_keeps:
  "alloc (init_geom_objs X sp as h) = alloc h"
  "list_at (init_geom_objs X sp as h) = list_at h"
  "src_at (init_geom_objs X sp as h) = src_at h"
  by (induction as arbitrary: h) simp_all

lemma init_src_objs_keeps:
  "alloc (init_src_objs X tree sp as h) = alloc h"
  "list_at (init_src_objs X tree sp as h) = list_at h"
  "geom_at (init_src_objs X tree sp as h) = geom_at h"
  by (induction as arbitrary: h) simp_all

lemma deepcopy_geom_list_fresh:
  assumes "deepcopy_geom_list h a = (h', gl)"
  shows "alloc h \<le> gl" "alloc h' = Suc gl" "\<forall>b \<in> set (list_at h' gl). alloc h \<le> b \<and> b < gl"
proof -
  obtain obj' bs where d: "deepcopy_elems (geom_at h) (alloc h) [] (list_at h a) = (obj', gl, bs)"
    and h': "h' = h\<lparr>alloc := Suc gl, geom_at := obj', list_at := (list_at h)(gl := bs)\<rparr>"
    using assms by (auto simp: deepcopy_geom_list_def split: prod.splits)
  from deepcopy_elems_fresh [OF d, of "alloc h"]
  show "alloc h \<le> gl" "alloc h' = Suc gl" "\<forall>b \<in> set (list_at h' gl). alloc h \<le> b \<and> b < gl"
    by (simp_all add: h')
qed

lemma deepcopy_src_list_fresh:
  assumes "deepcopy_src_list h a = (h', sl)"
  shows "alloc h \<le> sl" "alloc h' = Suc sl" "\<forall>b \<in> set (list_at h' sl). alloc h \<le> b \<and> b < sl"
    "geom_at h' = geom_at h" "\<And>b. b < alloc h \<Longrightarrow> list_at h' b = list_at h b"
proof -
  obtain obj' bs where d: "deepcopy_elems (src_at h) (alloc h) [] (list_at h a) = (obj', sl, bs)"
    and h': "h' = h\<lparr>alloc := Suc sl, src_at := obj', list_at := (list_at h)(sl := bs)\<rparr>"
    using assms by (auto simp: deepcopy_src_list_def split: prod.splits)
  note f = deepcopy_elems_fresh [OF d, of "alloc h"]
  from f show "alloc h \<le> sl" "alloc h' = Suc sl"
    "\<forall>b \<in> set (list_at h' sl). alloc h \<le> b \<and> b < sl" "geom_at h' = geom_at h"
    by (simp_all add: h')
  from f show "list_at h' b = list_at h b" if "b < alloc h" for b
    using that by (simp add: h')
qed

lemma seq_frame:
  fixes s :: "('g, 'p, 's) fdtd"
  assumes "store_independent (store s) f" "store_independent (store s) g"
    and "seq (f s) g = Returned e"
  shows "frame s e"
  using store_independentD(2) [OF store_independent_seq [OF assms(1, 2)] reads_agree_refl]
  by (simp add: assms(3))

lemma init_owned:
  fixes h :: "('g, 's) store" and X :: "('g, 'p, 's) externals"
  assumes "init cls X sched1 sched2 h sp geom_list0 src_list0 = Returned e"
  shows "owned h e (geom_list e)" "list_at (store e) (geom_list e) = geom_tree e"
    "\<forall>a \<in> set (geom_tree e). owned h e a" "owned h e (src_list e)"
    "\<forall>a \<in> set (list_at (store e) (src_list e)). owned h e a"
proof -
  obtain h1 gl where d1: "deepcopy_geom_list h geom_list0 = (h1, gl)"
    by (cases "deepcopy_geom_list h geom_list0")
  define h2 where "h2 = init_geom_objs X sp (list_at h1 gl) h1"
  define tree where "tree = list_at h2 gl"
  obtain h3 sl where d2: "deepcopy_src_list h2 src_list0 = (h3, sl)"
    by (cases "deepcopy_src_list h2 src_list0")
  define h4 where "h4 = init_src_objs X tree sp (list_at h3 sl) h3"
  define s0 :: "('g, 'p, 's) fdtd" where "s0 =
    \<lparr>store = h4, lock = (\<lambda>c. False), space = sp,
     geom_list = gl, geom_tree = tree, src_list = sl,
     dx = space_dx sp, dy = space_dy sp, dz = space_dz sp, dt = space_dt sp,
     time_step = \<lparr>ts_n = 0, ts_t = 0\<rparr>,
     fld = get_storage X sp, material = get_material_storage X sp,
     events = []\<rparr>"
  have "seq (init_material cls X sched1 s0) (init_source cls X sched2) = Returned e"
    using assms unfolding init_def d1 by (simp add: Let_def h2_def [symmetric] tree_def [symmetric]
      d2 h4_def [symmetric] s0_def [symmetric])
  from seq_frame [OF init_material_store_independent init_source_store_independent this]
  have e: "store e = h4" "geom_list e = gl" "geom_tree e = tree" "src_list e = sl"
    by (simp_all add: frame_def s0_def)
  note g = deepcopy_geom_list_fresh [OF d1]
  have a2: "alloc h2 = Suc gl" and l2: "list_at h2 = list_at h1"
    by (simp_all add: h2_def init_geom_objs_keeps g)
  note s = deepcopy_src_list_fresh [OF d2]
  have a4: "alloc h4 = Suc sl" and l4: "list_at h4 = list_at h3"
    by (simp_all add: h4_def init_src_objs_keeps s)
  have le: "Suc gl \<le> sl" using s(1) by (simp add: a2)
  show "owned h e (geom_list e)" using g(1) le by (simp add: owned_def e a4)
  show "list_at (store e) (geom_list e) = geom_tree e"
    by (simp add: e l4 s(5) a2 tree_def)
  show "\<forall>a \<in> set (geom_tree e). owned h e a"
    using g(3) le by (auto simp: owned_def e a4 tree_def l2)
  show "owned h e (src_list e)" using g(1) le by (simp add: owned_def e a4)
  show "\<forall>a \<in> set (list_at (store e) (src_list e)). owned h e a"
    using s(3) g(1) by (auto simp: owned_def e a4 l4 a2)
qed

lemma init_reads_agree:
  fixes h :: "('g, 's) store" and X :: "('g, 'p, 's) externals"
  assumes "init cls X sched1 sched2 h sp geom_list0 src_list0 = Returned e"
    and "agree_on_owned h e h2"
  shows "reads_agree e h2" "configuration h2 e = configuration (store e) e"
proof -
  note o = init_owned [OF assms(1)]
  have a: "list_at h2 a = list_at (store e) a" "geom_at h2 a = geom_at (store e) a"
    "src_at h2 a = src_at (store e) a" if "owned h e a" for a
    using assms(2) that by (simp_all add: agree_on_owned_def)
  have gl: "list_at h2 (geom_list e) = geom_tree e" using a(1) [OF o(1)] by (simp add: o(2))
  have g: "map (geom_at h2) (geom_tree e) = map (geom_at (store e)) (geom_tree e)"
    using o(3) by (simp add: a(2))
  have sl: "list_at h2 (src_list e) = list_at (store e) (src_list e)" by (rule a(1) [OF o(4)])
  have s: "map (src_at h2) (list_at (store e) (src_list e)) =
      map (src_at (store e)) (list_at (store e) (src_list e))"
    using o(5) by (simp add: a(3))
  show "reads_agree e h2" unfolding reads_agree_def using g sl s by (intro conjI)
  show "configuration h2 e = configuration (store e) e"
    unfolding configuration_def gl sl o(2) g s ..
qed

lemma store_demo_engine:
  "store demo_engine =
     \<lparr>alloc = 6, list_at = (\<lambda>a. if a = 0 then [2] else if a = 4 then [3] else []),
      geom_at = (\<lambda>a. 5), src_at = (\<lambda>a. 0)\<rparr>"
  by (simp add: demo_engine_def demo_store_def)

lemma init_demo_blank:
  "init cls demo_externals sched1 sched2 demo_store demo_space 0 1 =
     seq (init_material cls demo_externals sched1 (blank_engine (store demo_engine)))
       (init_source cls demo_externals sched2)"
proof -
  define H1 :: "(rat, nat) store" where
    "H1 = \<lparr>alloc = 5, list_at = (\<lambda>a. if a = 0 then [2] else if a = 4 then [3] else []),
        geom_at = (\<lambda>a. 5), src_at = (\<lambda>a. 0)\<rparr>"
  have d1: "deepcopy_geom_list demo_store 0 = (H1, 4)"
    by (auto simp: deepcopy_geom_list_def demo_store_def H1_def)
  have l1: "list_at H1 4 = [3]" by (simp add: H1_def)
  have g1: "init_geom_objs demo_externals demo_space [3] H1 = H1"
    by (auto simp: demo_externals_def H1_def)
  have d2: "deepcopy_src_list H1 1 = (store demo_engine, 5)"
    by (auto simp: deepcopy_src_list_def store_demo_engine H1_def)
  have l4: "list_at (store demo_engine) 5 = []" by (simp add: store_demo_engine)
  have s2: "init_src_objs demo_externals [3] demo_space [] (store demo_engine) = store demo_engine"
    by simp
  have b: "\<lparr>store = store demo_engine, lock = (\<lambda>c. False), space = demo_space,
       geom_list = 4, geom_tree = [3], src_list = 5,
       dx = space_dx demo_space, dy = space_dy demo_space, dz = space_dz demo_space,
       dt = space_dt demo_space,
       time_step = \<lparr>ts_n = 0, ts_t = 0\<rparr>,
       fld = get_storage demo_externals demo_space,
       material = get_material_storage demo_externals demo_space,
       events = []\<rparr> = blank_engine (store demo_engine)"
    by (simp add: blank_engine_def demo_space_def demo_externals_def)
  show ?thesis
    unfolding init_def
    by (simp only: d1 prod.case Let_def l1 g1 d2 l4 s2 b)
qed

lemma grid_after_demo:
  "grid_after demo_externals (blank_engine (store demo_engine)) c =
     \<lparr>shape = (2, 2, 2),
      cells = (\<lambda>i. if in_bounds (2, 2, 2) i
                    then Some (if is_boundary c (2, 2, 2) i then Dummy c i 1 else Pointwise 5)
                    else None)\<rparr>"
proof -
  have v: "visited demo_externals (blank_engine (store demo_engine)) c = ndindex (2, 2, 2)"
    by (simp add: visited_complete no_gap_demo shape_blank)
  have m: "material (blank_engine (store demo_engine)) c = \<lparr>shape = (2, 2, 2), cells = (\<lambda>i. None)\<rparr>"
    by (simp add: blank_engine_def)
  have i: "(i \<in> set (ndindex (2, 2, 2))) = in_bounds (2, 2, 2) i" for i
    by (cases i) (simp add: set_ndindex)
  have r: "built_rule demo_externals (blank_engine (store demo_engine)) c i =
      (if is_boundary c (2, 2, 2) i then Dummy c i 1 else Pointwise 5)"
    if "in_bounds (2, 2, 2) i" for i
    using that
    by (cases i) (simp add: built_rule_def shape_blank classify_blank store_demo_engine, simp add: demo_externals_def)
  show ?thesis
    unfolding grid_after_def v m i
    by (simp add: r cong: if_cong)
qed

lemma init_demo:
  "init FDTD demo_externals [3, 1] [2] demo_store demo_space 0 1 = Returned demo_built"
proof -
  have b: "\<forall>c \<in> set (components_of FDTD). buildable (blank_engine (store demo_engine)) c"
    by (simp add: buildable_blank)
  have p1: "pick_order [3, 1] (components_of FDTD) = [H_x, E_y, E_x, E_z, H_y, H_z]"
    by (simp add: Let_def)
  have p2: "pick_order [2] (components_of FDTD) = [E_z, E_x, E_y, H_x, H_y, H_z]"
    by (simp add: Let_def)
  have c: "(c \<in> set (components_of FDTD)) = True" for c
    by (simp only: in_components_of_FDTD)
  have m: "init_material FDTD demo_externals [3, 1] (blank_engine (store demo_engine)) =
    Returned ((blank_engine (store demo_engine))
      \<lparr>material := (\<lambda>c. \<lparr>shape = (2, 2, 2),
          cells = (\<lambda>i. if in_bounds (2, 2, 2) i
                    then Some (if is_boundary c (2, 2, 2) i then Dummy c i 1 else Pointwise 5)
                    else None)\<rparr>),
       events := concat (map (\<lambda>c. [Begin (Init_material c), End (Init_material c)])
                  [H_x, E_y, E_x, E_z, H_y, H_z])\<rparr>)"
    unfolding init_material_buildable [OF b] p1 c if_True grid_after_demo
    by (simp add: no_gap_demo del: is_boundary.simps in_bounds.simps) (simp add: blank_engine_def)
  show ?thesis
    unfolding init_demo_blank m seq.simps init_source_char p2 c if_True
    by (simp add: injected_def blank_engine_def store_demo_engine demo_built_def
      del: is_boundary.simps in_bounds.simps)
qed

lemma FDTD_step_invocations:
  assumes "ready s"
  shows "\<exists>s'. FDTD_step X sched1 sched2 s = Returned s' \<and>
    (\<forall>c. filter (invokes c) (added s s') =
            map (\<lambda>mo. Invoke mo c (spec_partner1 c) (spec_partner2 c) (dt s)
                         (spec_spacing1 c s) (spec_spacing2 c s))
              (rules_of s c) \<and>
          fld s' c = pass_result X c (if phase_of c = Electric then s else after_E X s))"
proof -
  let ?trE = "concat (map (\<lambda>m. block m s) (pick_order sched1 E_threads))"
  let ?trH = "concat (map (\<lambda>m. block m (after_E X s)) (pick_order sched2 H_threads))"
  let ?tr = "?trE @ [Time_state (half_step s)] @ ?trH @ [Time_state (full_step s)]"
  define s' where "s' = s\<lparr>fld := phase_fld X H_threads (after_E X s),
    time_step := full_step s, events := events s @ ?tr\<rparr>"
  have step: "FDTD_step X sched1 sched2 s = Returned s'"
    unfolding s'_def by (rule FDTD_step_ready [OF assms])
  have added: "added s s' = ?tr" by (simp add: added_def s'_def)
  have fldE: "fld (after_E X s) = phase_fld X E_threads s"
    by (simp add: after_E_def)
  have inv: "invocations c (after_E X s) = invocations c s" for c
    by (rule invocations_cong) (simp_all add: after_E_def)
  have dE: "distinct (pick_order sched1 E_threads)" and dH: "distinct (pick_order sched2 H_threads)"
    by (simp_all add: distinct_pick_order distinct_threads)
  have "filter (invokes c) (added s s') = invocations c s \<and>
      fld s' c = pass_result X c (if phase_of c = Electric then s else after_E X s)" for c
    unfolding added
    by (cases "phase_of c")
      (simp_all add: filter_invokes_blocks [OF dE] filter_invokes_blocks [OF dH] set_pick_order inv
        s'_def phase_fld_def fldE in_E_threads in_H_threads)
  then show ?thesis
    using step by (simp add: invocations_def)
qed


lemma in_set_ndindex: "i \<in> set (ndindex shp) \<longleftrightarrow> in_bounds shp i"
  by (cases shp; cases i) (simp add: set_ndindex)

lemma sorted_wrt_concat_map:
  assumes "\<And>x. x \<in> set xs \<Longrightarrow> sorted_wrt R (f x)"
    and "sorted_wrt (\<lambda>x y. \<forall>a \<in> set (f x). \<forall>b \<in> set (f y). R a b) xs"
  shows "sorted_wrt R (concat (map f xs))"
  using assms by (induction xs) (auto simp: sorted_wrt_append)

lemma sorted_wrt_upt_less:
  assumes "\<And>x y. x < y \<Longrightarrow> P x y"
  shows "sorted_wrt P [m..<n]"
  by (rule sorted_wrt_mono_rel [OF _ sorted_wrt_upt]) (rule assms)

lemma sorted_ndindex: "sorted_wrt row_major (ndindex shp)"
proof (cases shp)
  case (fields s0 s1 s2)
  have inner: "sorted_wrt row_major (map (\<lambda>k. (i, j, k)) [0..<s2])" for i j
    by (simp add: sorted_wrt_map sorted_wrt_upt_less)
  have middle: "sorted_wrt row_major (concat (map (\<lambda>j. map (\<lambda>k. (i, j, k)) [0..<s2]) [0..<s1]))" for i
    by (rule sorted_wrt_concat_map [OF inner]) (rule sorted_wrt_upt_less, auto)
  show ?thesis
    unfolding fields ndindex_def prod.case
    by (rule sorted_wrt_concat_map [OF middle]) (rule sorted_wrt_upt_less, auto)
qed

lemma steppable_ready:
  assumes "steppable s"
  shows "ready s"
proof -
  have "None \<notin> set (flat (material s c))" for c
  proof
    assume "None \<in> set (flat (material s c))"
    then obtain i where i: "i \<in> set (ndindex (shape (material s c)))"
      and n: "cells (material s c) i = None"
      unfolding flat_def by (auto simp del: split_paired_All split_paired_Ex)
    from i have "in_bounds (shape (material s c)) i" by (simp only: in_set_ndindex)
    with assms n show False unfolding steppable_def by blast
  qed
  moreover have "\<not> lock s c" for c using assms unfolding steppable_def by blast
  ultimately show ?thesis unfolding ready_def by blast
qed

lemma covered_no_gap:
  assumes "covered X s c"
  shows "\<not> has_gap X s c"
proof
  assume "has_gap X s c"
  then obtain i where i: "i \<in> set (ndindex (shape (fld s c)))" and g: "gap X s c i"
    unfolding has_gap_def list_ex_iff by blast
  from i have "in_bounds (shape (fld s c)) i" by (simp only: in_set_ndindex)
  with assms g show False unfolding covered_def by blast
qed

lemma pass_result_cells:
  "pass_result X c s =
     foldl (\<lambda>a i. update X (the (cells (material s c) i)) a (fld s (spec_partner1 c))
                     (fld s (spec_partner2 c)) (dt s) (spec_spacing1 c s) (spec_spacing2 c s))
       (fld s c) (ndindex (shape (material s c)))"
  by (simp add: pass_result_def rules_of_def flat_def foldl_map)

lemma partner_phase:
  "phase_of (spec_partner1 c) = other_phase (phase_of c)"
  "phase_of (spec_partner2 c) = other_phase (phase_of c)"
  by (cases c; simp)+

lemma after_E_fld:
  "fld (after_E X s) c = (if phase_of c = Electric then pass_result X c s else fld s c)"
  by (cases c) (simp_all add: after_E_def phase_fld_def E_threads_def)

lemma after_E_sel:
  "material (after_E X s) = material s" "dt (after_E X s) = dt s"
  "spec_spacing1 c (after_E X s) = spec_spacing1 c s"
  "spec_spacing2 c (after_E X s) = spec_spacing2 c s"
  by (cases c; simp add: after_E_def)+

section \<open>The claims\<close>

text \<open>
  C1. In every call of \<open>FDTD.step\<close>, and so in any number of consecutive calls, the three
  electric updates all end before a magnetic update begins, and the three magnetic
  updates all end before the call returns: started on an engine whose locks are free
  and whose material grids are filled, the calls return, leave such an engine behind,
  set the time state twice per call, and the events they add are accepted by the
  monitor of the leapfrog order, which starts and ends in the electric phase with no
  update begun. This holds under every schedule of the threads.
\<close>

theorem FDTD_steps_leapfrog_order:
  assumes "ready s"
  shows "\<exists>s'. FDTD_steps X scheds s = Returned s' \<and> ready s' \<and>
    length (time_states (added s s')) = 2 * length scheds \<and>
    monitor (Electric, {}, {}) (added s s') = Some (Electric, {}, {})"
proof -
  from FDTD_steps_trace [OF assms, of X scheds]
  obtain s' tr where *: "FDTD_steps X scheds s = Returned s'" "ready s'"
    "events s' = events s @ tr" "length (time_states tr) = 2 * length scheds"
    "monitor (Electric, {}, {}) tr = Some (Electric, {}, {})"
    by blast
  have "added s s' = tr" by (simp add: added_def *)
  with * show ?thesis by simp
qed

theorem FDTD_steps_leapfrog_order_witness:
  "ready demo_engine \<and>
   (\<exists>s'. FDTD_steps demo_externals [([], []), ([2, 0, 1], [5, 3])] demo_engine = Returned s' \<and>
      ready s' \<and>
      length (time_states (added demo_engine s')) = 2 * length [([], []), ([2 :: nat, 0, 1], [5 :: nat, 3])] \<and>
      monitor (Electric, {}, {}) (added demo_engine s') = Some (Electric, {}, {}))"
proof -
  have r: "ready demo_engine"
    by (auto simp: ready_def demo_engine_def flat_def)
  from r FDTD_steps_leapfrog_order [OF r, of demo_externals "[([], []), ([2, 0, 1], [5, 3])]"]
  show ?thesis by (rule conjI)
qed
text \<open>
  C2. In every step of the full three-dimensional engine, under every schedule of its
  threads, each component's update pass invokes the rule of every cell of the
  component's material grid (every index within the shape of the grid), each once, in
  row-major order, and invokes nothing else; every invocation has exactly the curl
  partners and spacings of the specification's table (\<open>spec_partner1\<close>,
  \<open>spec_partner2\<close>, \<open>spec_spacing1\<close>, \<open>spec_spacing2\<close>: Ex with (Hz, Hy, dy, dz), Ey with
  (Hx, Hz, dz, dx), Ez with (Hy, Hx, dx, dy), Hx with (Ez, Ey, dy, dz), Hy with
  (Ex, Ez, dz, dx), Hz with (Ey, Ex, dx, dy)) and the time step \<open>dt\<close>. The array a
  component ends the step with is what these invocations make of the array it had, the
  electric ones reading the magnetic arrays as the step found them and the magnetic
  ones reading the electric arrays the step has produced.
\<close>

theorem FDTD_step_curl_partners:
  assumes "steppable s"
  shows "\<exists>s'. FDTD_step X sched1 sched2 s = Returned s' \<and>
    (\<forall>c. \<exists>js. sorted_wrt row_major js \<and>
        (\<forall>i. i \<in> set js \<longleftrightarrow> in_bounds (shape (material s c)) i) \<and>
        filter (invokes c) (added s s') =
          map (\<lambda>i. Invoke (the (cells (material s c) i)) c (spec_partner1 c) (spec_partner2 c)
                       (dt s) (spec_spacing1 c s) (spec_spacing2 c s)) js \<and>
        fld s' c =
          foldl (\<lambda>a i. update X (the (cells (material s c) i)) a
                          (fld (if phase_of c = Electric then s else s') (spec_partner1 c))
                          (fld (if phase_of c = Electric then s else s') (spec_partner2 c))
                          (dt s) (spec_spacing1 c s) (spec_spacing2 c s))
            (fld s c) js)"
proof -
  from FDTD_step_invocations [OF steppable_ready [OF assms], of X sched1 sched2]
  obtain s' where step: "FDTD_step X sched1 sched2 s = Returned s'"
    and inv: "\<And>c. filter (invokes c) (added s s') =
            map (\<lambda>mo. Invoke mo c (spec_partner1 c) (spec_partner2 c) (dt s)
                         (spec_spacing1 c s) (spec_spacing2 c s)) (rules_of s c)"
    and res: "\<And>c. fld s' c = pass_result X c (if phase_of c = Electric then s else after_E X s)"
    by blast
  have E: "fld s' p = fld (after_E X s) p" if "phase_of p = Electric" for p
    using res [of p] that by (simp add: after_E_fld)
  have "sorted_wrt row_major (ndindex (shape (material s c))) \<and>
      (\<forall>i. i \<in> set (ndindex (shape (material s c))) \<longleftrightarrow> in_bounds (shape (material s c)) i) \<and>
      filter (invokes c) (added s s') =
        map (\<lambda>i. Invoke (the (cells (material s c) i)) c (spec_partner1 c) (spec_partner2 c)
                     (dt s) (spec_spacing1 c s) (spec_spacing2 c s))
          (ndindex (shape (material s c))) \<and>
      fld s' c =
        foldl (\<lambda>a i. update X (the (cells (material s c) i)) a
                        (fld (if phase_of c = Electric then s else s') (spec_partner1 c))
                        (fld (if phase_of c = Electric then s else s') (spec_partner2 c))
                        (dt s) (spec_spacing1 c s) (spec_spacing2 c s))
          (fld s c) (ndindex (shape (material s c)))" for c
  proof (intro conjI allI)
    show "sorted_wrt row_major (ndindex (shape (material s c)))" by (rule sorted_ndindex)
    show "i \<in> set (ndindex (shape (material s c))) \<longleftrightarrow> in_bounds (shape (material s c)) i" for i
      by (rule in_set_ndindex)
    show "filter (invokes c) (added s s') =
        map (\<lambda>i. Invoke (the (cells (material s c) i)) c (spec_partner1 c) (spec_partner2 c)
                     (dt s) (spec_spacing1 c s) (spec_spacing2 c s))
          (ndindex (shape (material s c)))"
      by (simp add: inv rules_of_def flat_def o_def)
    show "fld s' c =
        foldl (\<lambda>a i. update X (the (cells (material s c) i)) a
                        (fld (if phase_of c = Electric then s else s') (spec_partner1 c))
                        (fld (if phase_of c = Electric then s else s') (spec_partner2 c))
                        (dt s) (spec_spacing1 c s) (spec_spacing2 c s))
          (fld s c) (ndindex (shape (material s c)))"
    proof (cases "phase_of c")
      case Electric
      then show ?thesis by (simp add: res pass_result_cells)
    next
      case Magnetic
      then have p: "phase_of (spec_partner1 c) = Electric" "phase_of (spec_partner2 c) = Electric"
        by (simp_all add: partner_phase)
      have own: "fld (after_E X s) c = fld s c" using Magnetic by (simp add: after_E_fld)
      have r: "(if phase_of c = Electric then s else s') = s'"
        "(if phase_of c = Electric then s else after_E X s) = after_E X s"
        using Magnetic by simp_all
      have "fld s' c = pass_result X c (after_E X s)"
        by (simp only: res r)
      also have "\<dots> =
        foldl (\<lambda>a i. update X (the (cells (material s c) i)) a
                        (fld (after_E X s) (spec_partner1 c)) (fld (after_E X s) (spec_partner2 c))
                        (dt s) (spec_spacing1 c s) (spec_spacing2 c s))
          (fld s c) (ndindex (shape (material s c)))"
        by (simp only: pass_result_cells after_E_sel own)
      finally show ?thesis
        by (simp only: r E [OF p(1)] E [OF p(2)])
    qed
  qed
  then show ?thesis using step by blast
qed

theorem FDTD_step_curl_partners_witness:
  "steppable demo_engine \<and>
   (\<exists>s'. FDTD_step demo_externals [4, 1] [0, 3, 3] demo_engine = Returned s' \<and>
    (\<forall>c. \<exists>js. sorted_wrt row_major js \<and>
        (\<forall>i. i \<in> set js \<longleftrightarrow> in_bounds (shape (material demo_engine c)) i) \<and>
        filter (invokes c) (added demo_engine s') =
          map (\<lambda>i. Invoke (the (cells (material demo_engine c) i)) c (spec_partner1 c)
                       (spec_partner2 c) (dt demo_engine) (spec_spacing1 c demo_engine)
                       (spec_spacing2 c demo_engine)) js \<and>
        fld s' c =
          foldl (\<lambda>a i. update demo_externals (the (cells (material demo_engine c) i)) a
                          (fld (if phase_of c = Electric then demo_engine else s') (spec_partner1 c))
                          (fld (if phase_of c = Electric then demo_engine else s') (spec_partner2 c))
                          (dt demo_engine) (spec_spacing1 c demo_engine)
                          (spec_spacing2 c demo_engine))
            (fld demo_engine c) js))"
proof -
  have r: "steppable demo_engine"
    by (simp add: steppable_def demo_engine_def)
  from r FDTD_step_curl_partners [OF r, of demo_externals "[4, 1]" "[0, 3, 3]"]
  show ?thesis by (rule conjI)
qed

text \<open>
  C10. Every call of \<open>FDTD.step\<close> also runs the export methods as threads beside the
  updates: \<open>write_hx\<close>, \<open>write_hy\<close>, \<open>write_hz\<close> in the electric phase, where they call no
  writer, and \<open>write_ex\<close>, \<open>write_ey\<close>, \<open>write_ez\<close> in the magnetic phase. \<open>write_ex\<close>
  called with no argument hands the whole \<open>ex\<close> array to \<open>write_hdf5\<close>, with the empty
  name, the lower bounds \<open>(0, 0, 0)\<close> and the shape plus one in every axis as upper
  bounds; so a step makes exactly one export, in its magnetic phase, of the \<open>ex\<close> array
  it has just updated.
\<close>

theorem FDTD_step_exports:
  assumes "ready s"
  shows "\<exists>s' trE ts1 trH ts2.
    FDTD_step X sched1 sched2 s = Returned s' \<and>
    added s s' = trE @ [Time_state ts1] @ trH @ [Time_state ts2] \<and>
    time_states trE = [] \<and> time_states trH = [] \<and>
    (\<forall>c \<in> {H_x, H_y, H_z}. Begin (Write c) \<in> set trE \<and> End (Write c) \<in> set trE) \<and>
    (\<forall>c \<in> {E_x, E_y, E_z}. Begin (Write c) \<in> set trH \<and> End (Write c) \<in> set trH) \<and>
    filter is_export trE = [] \<and>
    filter is_export trH =
      [Write_hdf5 (fld s' E_x) '''' (0, 0, 0)
         (case shape (fld s' E_x) of (h0, h1, h2) \<Rightarrow> (h0 + 1, h1 + 1, h2 + 1))] \<and>
    write_ex None None None None s =
      Returned (emit (Write_hdf5 (fld s E_x) '''' (0, 0, 0)
         (case shape (fld s E_x) of (h0, h1, h2) \<Rightarrow> (h0 + 1, h1 + 1, h2 + 1))) s)"
proof -
  let ?trE = "concat (map (\<lambda>m. block m s) (pick_order sched1 E_threads))"
  let ?trH = "concat (map (\<lambda>m. block m (after_E X s)) (pick_order sched2 H_threads))"
  define s' where "s' = s\<lparr>fld := phase_fld X H_threads (after_E X s),
    time_step := full_step s,
    events := events s @ ?trE @ [Time_state (half_step s)] @ ?trH @ [Time_state (full_step s)]\<rparr>"
  have step: "FDTD_step X sched1 sched2 s = Returned s'"
    unfolding s'_def by (rule FDTD_step_ready [OF assms])
  have added: "added s s' = ?trE @ [Time_state (half_step s)] @ ?trH @ [Time_state (full_step s)]"
    by (simp add: added_def s'_def)
  have dE: "distinct (pick_order sched1 E_threads)" and dH: "distinct (pick_order sched2 H_threads)"
    by (simp_all add: distinct_pick_order distinct_threads)
  have wE: "\<forall>c \<in> {H_x, H_y, H_z}. Begin (Write c) \<in> set ?trE \<and> End (Write c) \<in> set ?trE"
    by (intro ballI marks_in_blocks) (auto simp: set_pick_order in_E_threads)
  have wH: "\<forall>c \<in> {E_x, E_y, E_z}. Begin (Write c) \<in> set ?trH \<and> End (Write c) \<in> set ?trH"
    by (intro ballI marks_in_blocks) (auto simp: set_pick_order in_H_threads)
  have eE: "filter is_export ?trE = []"
    by (simp add: filter_export_blocks [OF dE] set_pick_order in_E_threads)
  have ex: "fld s' E_x = fld (after_E X s) E_x"
    by (simp add: s'_def phase_fld_def in_H_threads)
  have eH: "filter is_export ?trH =
      [Write_hdf5 (fld s' E_x) '''' (0, 0, 0)
         (case shape (fld s' E_x) of (h0, h1, h2) \<Rightarrow> (h0 + 1, h1 + 1, h2 + 1))]"
    by (simp add: filter_export_blocks [OF dH] set_pick_order in_H_threads ex)
  have w: "write_ex None None None None s =
      Returned (emit (Write_hdf5 (fld s E_x) '''' (0, 0, 0)
         (case shape (fld s E_x) of (h0, h1, h2) \<Rightarrow> (h0 + 1, h1 + 1, h2 + 1))) s)"
    by (simp add: write_ex_def split: prod.splits)
  show ?thesis
    using step added wE wH eE eH w time_states_blocks [of s "pick_order sched1 E_threads"]
      time_states_blocks [of "after_E X s" "pick_order sched2 H_threads"]
    by blast
qed

theorem FDTD_step_exports_witness:
  "ready demo_engine \<and>
   (\<exists>s' trE ts1 trH ts2.
    FDTD_step demo_externals [] [3] demo_engine = Returned s' \<and>
    added demo_engine s' = trE @ [Time_state ts1] @ trH @ [Time_state ts2] \<and>
    time_states trE = [] \<and> time_states trH = [] \<and>
    (\<forall>c \<in> {H_x, H_y, H_z}. Begin (Write c) \<in> set trE \<and> End (Write c) \<in> set trE) \<and>
    (\<forall>c \<in> {E_x, E_y, E_z}. Begin (Write c) \<in> set trH \<and> End (Write c) \<in> set trH) \<and>
    filter is_export trE = [] \<and>
    filter is_export trH =
      [Write_hdf5 (fld s' E_x) '''' (0, 0, 0)
         (case shape (fld s' E_x) of (h0, h1, h2) \<Rightarrow> (h0 + 1, h1 + 1, h2 + 1))] \<and>
    write_ex None None None None demo_engine =
      Returned (emit (Write_hdf5 (fld demo_engine E_x) '''' (0, 0, 0)
         (case shape (fld demo_engine E_x) of (h0, h1, h2) \<Rightarrow> (h0 + 1, h1 + 1, h2 + 1)))
        demo_engine))"
proof -
  have r: "ready demo_engine"
    by (auto simp: ready_def demo_engine_def flat_def)
  from r FDTD_step_exports [OF r, of demo_externals "[]" "[3]"]
  show ?thesis by (rule conjI)
qed
text \<open>
  C4. The claim fails on the one-dimensional engines: each phase of \<open>TEMxFDTD.step\<close>,
  \<open>TEMyFDTD.step\<close> and \<open>TEMzFDTD.step\<close> adds 5 to the half-step counter, not 0.5, so
  one call takes the counter of the concrete engine from 0 to 10, the time state being
  \<open>n = 5\<close> after the electric and \<open>n = 10\<close> after the magnetic phase.
\<close>

theorem TEM_step_counter_advances_by_ten:
  "ts_n (time_step demo_engine) = 0 \<and>
   map_outcome (\<lambda>s'. (ts_n (time_step s'), map ts_n (time_states (added demo_engine s'))))
     (step TEMxFDTD demo_externals [] [] demo_engine) = Returned (10, [5, 10]) \<and>
   map_outcome (\<lambda>s'. (ts_n (time_step s'), map ts_n (time_states (added demo_engine s'))))
     (step TEMyFDTD demo_externals [] [] demo_engine) = Returned (10, [5, 10]) \<and>
   map_outcome (\<lambda>s'. (ts_n (time_step s'), map ts_n (time_states (added demo_engine s'))))
     (step TEMzFDTD demo_externals [] [] demo_engine) = Returned (10, [5, 10])"
proof -
  have n: "ts_n (time_step demo_engine) = 0" by (simp add: demo_engine_def)
  have "map_outcome (\<lambda>s'. (ts_n (time_step s'), map ts_n (time_states (added demo_engine s'))))
     (seq (call demo_externals (Update a) demo_engine) (\<lambda>s.
      seq (Returned (tick (t_set (n_add 5 s)))) (\<lambda>s.
      seq (call demo_externals (Update b) s) (\<lambda>s.
      Returned (tick (t_set (n_add 5 s))))))) = Returned (10, [5, 10])" for a b
  proof -
    from two_calls_observed [OF ready_demo_engine, of demo_externals a 5 b]
    obtain s' where "seq (call demo_externals (Update a) demo_engine) (\<lambda>s.
      seq (Returned (tick (t_set (n_add 5 s)))) (\<lambda>s.
      seq (call demo_externals (Update b) s) (\<lambda>s.
      Returned (tick (t_set (n_add 5 s)))))) = Returned s'"
      and "ts_n (time_step s') = ts_n (time_step demo_engine) + 5 + 5"
      and "map ts_n (time_states (outline (added demo_engine s'))) =
        [ts_n (time_step demo_engine) + 5, ts_n (time_step demo_engine) + 5 + 5]"
      by fastforce
    then show ?thesis by (simp add: n time_states_outline)
  qed
  then show ?thesis
    by (simp add: n TEMxFDTD_step_def TEMyFDTD_step_def TEMzFDTD_step_def)
qed

text \<open>
  C5. The claim fails on \<open>TEzFDTD\<close>: the last statement of \<open>TEzFDTD.step\<close> adds \<open>dt\<close> to
  the time instead of setting it to \<open>n * dt\<close>. On the concrete engine (\<open>n = 0\<close>,
  \<open>t = 0\<close>, \<open>dt = 1\<close>) the time state is \<open>n = 1/2, t = 1/2\<close> after the electric phase and
  \<open>n = 1, t = 3/2\<close> after the magnetic phase.
\<close>

theorem TEz_step_time_is_not_n_dt:
  "time_step demo_engine = \<lparr>ts_n = 0, ts_t = 0\<rparr> \<and> dt demo_engine = 1 \<and>
   map_outcome (\<lambda>s'. time_states (added demo_engine s'))
     (step TEzFDTD demo_externals [] [] demo_engine) =
     Returned [\<lparr>ts_n = 1/2, ts_t = 1/2\<rparr>, \<lparr>ts_n = 1, ts_t = 3/2\<rparr>]"
proof -
  have n: "time_step demo_engine = \<lparr>ts_n = 0, ts_t = 0\<rparr>" "dt demo_engine = 1"
    by (simp_all add: demo_engine_def)
  from TEzFDTD_step_time [OF ready_demo_engine, of demo_externals "[]"]
  show ?thesis by (auto simp: n)
qed

text \<open>
  C7. \<open>TEMxFDTD.step\<close> on the concrete engine updates Ey and then Hz and leaves the
  arrays of Ex, Ez, Hx and Hy as they were, but it advances the half-step counter by 5
  after each of the two updates, not by one half-unit: the time state is \<open>n = 5\<close> after
  the update of Ey and \<open>n = 10\<close> after the update of Hz.
\<close>

theorem TEMx_step_updates_and_time:
  "map_outcome
     (\<lambda>s'. (outline (added demo_engine s'),
            map (\<lambda>c. fld s' c = fld demo_engine c) [E_x, E_z, H_x, H_y]))
     (step TEMxFDTD demo_externals [] [] demo_engine) =
   Returned
     ([Begin (Update E_y), End (Update E_y), Time_state \<lparr>ts_n = 5, ts_t = 5\<rparr>,
       Begin (Update H_z), End (Update H_z), Time_state \<lparr>ts_n = 10, ts_t = 10\<rparr>],
      [True, True, True, True])"
proof -
  have n: "time_step demo_engine = \<lparr>ts_n = 0, ts_t = 0\<rparr>" "dt demo_engine = 1"
    by (simp_all add: demo_engine_def)
  from two_calls_observed [OF ready_demo_engine, of demo_externals E_y 5 H_z]
  show ?thesis
    by (auto simp: n TEMxFDTD_step_def)
qed
text \<open>
  C3. Material grid construction (\<open>init_material\<close> of any class of the family, under
  every schedule of its threads). When the locks of the components the class builds are
  free, their material arrays have the shapes of their field arrays, and every cell that
  is not on the boundary has a covering object, the call returns, and for every
  component the class builds and every index of the component's material array (every
  index within its shape) the cell holds the boundary stub \<open>Dummy c idx 1\<close> exactly
  when the index is on the boundary in the words of the specification
  (\<open>spec_boundary\<close>: for an electric component one of the two transverse indices equals
  the shape minus one, for a magnetic component one of them is zero), and else holds the
  rule that the material of the covering object hands out for the index and its
  coordinate.
\<close>

theorem init_material_assigns_rules:
  assumes "\<forall>c \<in> set (components_of cls). buildable s c"
    and "\<forall>c \<in> set (components_of cls). covered X s c"
  shows "\<exists>s'. init_material cls X sched s = Returned s' \<and>
    (\<forall>c \<in> set (components_of cls).
       shape (material s' c) = shape (fld s c) \<and>
       (\<forall>i. in_bounds (shape (material s' c)) i \<longrightarrow>
          cells (material s' c) i =
            Some (if spec_boundary c (shape (fld s c)) i then Dummy c i 1
                  else Pointwise (get_pointwise_material X (the (classify X s c i)) c i
                         (index_to_space (space s) c i)))))"
proof -
  have sh: "shape (grid_after X s c) = shape (fld s c)" if "c \<in> set (components_of cls)" for c
    using assms(1) that by (simp add: grid_after_def buildable_def)
  have "cells (grid_after X s c) i =
      Some (if spec_boundary c (shape (fld s c)) i then Dummy c i 1
            else Pointwise (get_pointwise_material X (the (classify X s c i)) c i
                   (index_to_space (space s) c i)))"
    if c: "c \<in> set (components_of cls)" and i: "in_bounds (shape (fld s c)) i" for c i
  proof -
    from assms(2) c have "\<not> has_gap X s c" by (simp add: covered_no_gap)
    then have v: "visited X s c = ndindex (shape (fld s c))" by (rule visited_complete)
    from i have "i \<in> set (visited X s c)" by (simp only: v in_set_ndindex)
    then show ?thesis
      by (simp add: grid_after_def built_rule_def spec_boundary_eq)
  qed
  with sh show ?thesis
    by (simp add: init_material_buildable [OF assms(1)])
qed

theorem init_material_assigns_rules_witness:
  "list_all (buildable (blank_engine (store demo_engine))) (components_of FDTD) \<and>
   list_all (covered demo_externals (blank_engine (store demo_engine))) (components_of FDTD) \<and>
   (\<exists>s'. init_material FDTD demo_externals [3, 1] (blank_engine (store demo_engine)) = Returned s' \<and>
    (\<forall>c \<in> set (components_of FDTD).
       shape (material s' c) = shape (fld (blank_engine (store demo_engine)) c) \<and>
       (\<forall>i. in_bounds (shape (material s' c)) i \<longrightarrow>
          cells (material s' c) i =
            Some (if spec_boundary c (shape (fld (blank_engine (store demo_engine)) c)) i
                  then Dummy c i 1
                  else Pointwise (get_pointwise_material demo_externals
                         (the (classify demo_externals (blank_engine (store demo_engine)) c i)) c i
                         (index_to_space (space (blank_engine (store demo_engine))) c i))))))"
proof -
  have b: "\<forall>c \<in> set (components_of FDTD). buildable (blank_engine (store demo_engine)) c"
    by (simp add: buildable_blank)
  have "covered demo_externals (blank_engine (store demo_engine)) c" for c
    unfolding covered_def shape_blank
  proof (intro allI impI)
    fix i :: idx
    assume "in_bounds (2, 2, 2) i"
    then show "\<not> gap demo_externals (blank_engine (store demo_engine)) c i"
      by (cases i) (simp add: gap_blank store_demo_engine)
  qed
  then have g: "\<forall>c \<in> set (components_of FDTD).
      covered demo_externals (blank_engine (store demo_engine)) c"
    by blast
  from b have b': "list_all (buildable (blank_engine (store demo_engine))) (components_of FDTD)"
    by (simp only: list_all_iff)
  from g have g': "list_all (covered demo_externals (blank_engine (store demo_engine)))
     (components_of FDTD)"
    by (simp only: list_all_iff)
  from b' g' init_material_assigns_rules [OF b g, of "[3, 1]"]
  show ?thesis by (intro conjI)
qed

text \<open>
  C6. Source injection (\<open>init_source\<close> of \<open>FDTD\<close>, under every schedule of its threads)
  returns, and leaves in the material grid of each of the six components the result of
  applying the overlays of the sources of \<open>src_list\<close> one after the other, in the order
  of the list, to the grid the component had. With two sources, the one at \<open>a\<close>
  registered before the one at \<open>b\<close>, the grid is the overlay of \<open>b\<close> applied to the overlay
  of \<open>a\<close>.
\<close>

theorem init_source_registration_order:
  "(\<exists>s'. init_source FDTD X sched s = Returned s' \<and>
     (\<forall>c. material s' c =
        foldl (\<lambda>m a. set_pointwise_source X (src_at (store s) a) c m (space s))
          (material s c) (list_at (store s) (src_list s)))) \<and>
   (\<exists>s'. init_source FDTD X sched
          (s\<lparr>store := (store s)\<lparr>list_at := (list_at (store s))(src_list s := [a, b])\<rparr>\<rparr>) =
        Returned s' \<and>
     (\<forall>c. material s' c =
        set_pointwise_source X (src_at (store s) b) c
          (set_pointwise_source X (src_at (store s) a) c (material s c) (space s)) (space s)))"
proof -
  have *: "c \<in> set (components_of FDTD)" for c
    by (rule in_components_of_FDTD)
  show ?thesis
    by (simp add: init_source_char injected_def * del: components_of.simps)
qed

text \<open>
  C8, as the code has it. A classification failure does not leave \<open>init_material\<close>: the
  exception ends the worker thread of its component and nothing else. When the locks of
  the components the class builds are free and their material arrays have the shapes of
  their field arrays, \<open>init_material\<close> returns normally under every schedule, whether or
  not the geometry has gaps. A component whose cells all have a covering object is built
  completely and its lock is free again. A component with a gap keeps the rules assigned
  to the cells before the first gap (in index order), its other cells are as they were,
  its worker has died of the classification error, and its lock is never released, so a
  later update of that component blocks.
\<close>

theorem init_material_error_stays_in_worker:
  assumes "\<forall>c \<in> set (components_of cls). buildable s c"
  shows "\<exists>s'. init_material cls X sched s = Returned s' \<and>
    (\<forall>c \<in> set (components_of cls).
       lock s' c = has_gap X s c \<and>
       (\<forall>i. cells (material s' c) i =
          (if i \<in> set (visited X s c) then Some (built_rule X s c i)
           else cells (material s c) i)) \<and>
       (has_gap X s c \<longrightarrow>
          Died (Init_material c) ClassificationError \<in> set (added s s') \<and>
          call X (Update c) s' = Blocked))"
proof -
  let ?tr = "concat (map (\<lambda>c. init_block X s (Init_material c)) (pick_order sched (components_of cls)))"
  define s' where "s' = s\<lparr>lock := (\<lambda>c. if c \<in> set (components_of cls) then has_gap X s c else lock s c),
      material := (\<lambda>c. if c \<in> set (components_of cls) then grid_after X s c else material s c),
      events := events s @ ?tr\<rparr>"
  have ret: "init_material cls X sched s = Returned s'"
    unfolding s'_def by (rule init_material_buildable [OF assms])
  have added: "added s s' = ?tr" by (simp add: added_def s'_def)
  have "lock s' c = has_gap X s c \<and>
       (\<forall>i. cells (material s' c) i =
          (if i \<in> set (visited X s c) then Some (built_rule X s c i)
           else cells (material s c) i)) \<and>
       (has_gap X s c \<longrightarrow>
          Died (Init_material c) ClassificationError \<in> set (added s s') \<and>
          call X (Update c) s' = Blocked)"
    if c: "c \<in> set (components_of cls)" for c
  proof (intro conjI impI allI)
    show l: "lock s' c = has_gap X s c" using c by (simp add: s'_def)
    show "cells (material s' c) i =
          (if i \<in> set (visited X s c) then Some (built_rule X s c i)
           else cells (material s c) i)" for i
      using c by (simp add: s'_def grid_after_def)
    assume g: "has_gap X s c"
    have "c \<in> set (pick_order sched (components_of cls))"
      using c by (simp add: set_pick_order)
    from init_block_in_blocks [OF this, of X s]
    show "Died (Init_material c) ClassificationError \<in> set (added s s')"
      unfolding added using g by simp
    show "call X (Update c) s' = Blocked"
      using l g by (simp add: call_Update_locked)
  qed
  then show ?thesis using ret by blast
qed

theorem init_material_error_stays_in_worker_witness:
  "list_all (buildable (blank_engine gap_store)) (components_of FDTD) \<and>
   (\<exists>s'. init_material FDTD demo_externals [] (blank_engine gap_store) = Returned s' \<and>
    (\<forall>c \<in> set (components_of FDTD).
       lock s' c = has_gap demo_externals (blank_engine gap_store) c \<and>
       (\<forall>i. cells (material s' c) i =
          (if i \<in> set (visited demo_externals (blank_engine gap_store) c)
           then Some (built_rule demo_externals (blank_engine gap_store) c i)
           else cells (material (blank_engine gap_store) c) i)) \<and>
       (has_gap demo_externals (blank_engine gap_store) c \<longrightarrow>
          Died (Init_material c) ClassificationError \<in> set (added (blank_engine gap_store) s') \<and>
          call demo_externals (Update c) s' = Blocked)))"
proof -
  have b: "\<forall>c \<in> set (components_of FDTD). buildable (blank_engine gap_store) c"
    by (simp add: buildable_blank)
  from b have b': "list_all (buildable (blank_engine gap_store)) (components_of FDTD)"
    by (simp only: list_all_iff)
  from b' init_material_error_stays_in_worker [OF b, of demo_externals "[]"]
  show ?thesis by (intro conjI)
qed

text \<open>
  C8, as the claim states it, fails: in the store whose geometry has gaps, the pass of
  Ex meets a cell with no covering object, and yet \<open>init_material\<close> returns normally
  instead of raising, and exposes an engine whose Ex grid is partly built: the cell
  \<open>(0, 0, 0)\<close> has its rule, the cell \<open>(1, 0, 0)\<close> has none, and the lock of Ex is held.
\<close>

theorem init_material_error_counterexample:
  "has_gap demo_externals (blank_engine gap_store) E_x \<and>
   (case init_material FDTD demo_externals [] (blank_engine gap_store) of
      Returned s' \<Rightarrow>
        cells (material s' E_x) (0, 0, 0) = Some (Pointwise (1/2)) \<and>
        cells (material s' E_x) (1, 0, 0) = None \<and> lock s' E_x
    | Raised e s' \<Rightarrow> False
    | Blocked \<Rightarrow> False)"
proof -
  have b: "\<forall>c \<in> set (components_of FDTD). buildable (blank_engine gap_store) c"
    by (simp add: buildable_blank)
  have r: "built_rule demo_externals (blank_engine gap_store) E_x (0, 0, 0) = Pointwise (1/2)"
    by (simp add: built_rule_def shape_blank classify_blank)
      (simp add: gap_store_def demo_externals_def)
  have m: "cells (material (blank_engine gap_store) E_x) i = None" for i
    by (simp add: blank_engine_def)
  show ?thesis
    by (simp add: init_material_buildable [OF b] has_gap_E_x grid_after_def visited_gap_E_x r m)
qed

text \<open>
  C9. The constructor works on deep copies of the caller's geometry list and source
  list: the lists and objects the engine refers to are at addresses the constructor
  has allocated itself (from the first free address of the caller's store on), so none
  of them is an object the caller had. Let the constructor, called in the store \<open>h\<close>,
  return the engine \<open>e\<close>, and let \<open>h2\<close> be any store that agrees with the store of \<open>e\<close>
  on the addresses the constructor has allocated; whatever the caller does to its
  original lists and to the objects in them gives such a store. Then in \<open>h2\<close> the
  engine has the same configuration (the objects of its geometry list, of its geometry
  tree and of its source list read the same), any number of consecutive calls of
  \<open>step\<close> of any class under any schedules do in \<open>h2\<close> exactly what they do in the
  unmutated store (same outcome, same engine state, the store left as it is), and so
  does every method of the engine that a thread can run, the builders
  \<open>init_material_*\<close> and \<open>init_source_*\<close> that read the geometry and the sources
  included.
\<close>

theorem constructor_decouples_caller_lists:
  fixes h :: "('g, 's) store" and X :: "('g, 'p, 's) externals"
  assumes "init cls X sched1 sched2 h sp geom_list0 src_list0 = Returned e"
    and "agree_on_owned h e h2"
  shows "configuration h2 e = configuration (store e) e \<and>
    steps cls X scheds (with_store h2 e) = map_outcome (with_store h2) (steps cls X scheds e) \<and>
    (\<forall>m. target X m (with_store h2 e) = map_outcome (with_store h2) (target X m e))"
proof -
  note r = init_reads_agree [OF assms]
  from r(2) store_independentD(1) [OF steps_store_independent r(1)]
    store_independentD(1) [OF target_store_independent r(1)]
  show ?thesis by (intro conjI allI)
qed

theorem constructor_decouples_caller_lists_witness:
  "init FDTD demo_externals [3, 1] [2] demo_store demo_space 0 1 = Returned demo_built \<and>
   agree_on_owned demo_store demo_built mutated_store \<and>
   configuration mutated_store demo_built = configuration (store demo_built) demo_built \<and>
   steps FDTD demo_externals [([2, 0, 1], [5, 3])] (with_store mutated_store demo_built) =
     map_outcome (with_store mutated_store)
       (steps FDTD demo_externals [([2, 0, 1], [5, 3])] demo_built) \<and>
   (\<forall>m. target demo_externals m (with_store mutated_store demo_built) =
      map_outcome (with_store mutated_store) (target demo_externals m demo_built))"
proof -
  have a: "agree_on_owned demo_store demo_built mutated_store"
    by (simp add: agree_on_owned_def owned_def demo_store_def demo_built_def mutated_store_def)
  show ?thesis
    by (rule conjI [OF init_demo conjI [OF a
      constructor_decouples_caller_lists [OF init_demo a, of "[([2, 0, 1], [5, 3])]"]]])
qed

end
